theory Spec2Isabelle
  imports Complex_Main "HOL-Library.Product_Lexorder"
begin

section \<open>Data model (models.py)\<close>

text \<open>
  A \<open>datetime\<close> is the triple (year, month, day), ordered lexicographically as Python
  orders datetimes; the observations of the data provider carry calendar days only.
  The surrogate primary key \<open>id\<close> of each table is assigned by the database and is
  neither read nor written by \<open>fred_service.py\<close>; a row is identified by its position
  in the table. Fields of \<open>RecessionPeriod\<close> and \<open>DataFetchLog\<close> whose names repeat a
  name of an earlier table carry a prefix.
\<close>

type_synonym datetime = "nat \<times> nat \<times> nat"

definition year :: "datetime \<Rightarrow> nat" where
  "year d = fst d"

text \<open>
  Every exception the service can meet is a value. \<open>OperationalError\<close> is a failed
  round trip to the database, \<open>PendingRollbackError\<close> the use of a session whose commit
  failed and that was not rolled back, \<open>FredError\<close> a failure of the data provider
  (with the provider's text), \<open>ValueError\<close> a start date that \<open>strptime\<close> rejects
  (with the rejected string), \<open>AttributeError\<close> the access \<open>None.year\<close>. Where the
  source stores or returns the text \<open>str(e)\<close>, the model keeps the exception \<open>e\<close>.
\<close>

datatype error =
    OperationalError
  | PendingRollbackError
  | FredError string
  | ValueError string
  | AttributeError

record MarketData =
  date :: datetime
  series_id :: string
  series_name :: string
  val :: real
  created_at :: datetime
  updated_at :: datetime

record RecessionPeriod =
  start_date :: datetime
  end_date :: "datetime option"
  name :: string
  description :: "string option"
  rp_created_at :: datetime

record DataFetchLog =
  log_series_id :: string
  fetch_date :: datetime
  status :: string
  records_fetched :: nat
  error_message :: "error option"
  log_start_date :: datetime
  log_end_date :: "datetime option"

record database =
  market_data :: "MarketData list"
  recession_periods :: "RecessionPeriod list"
  data_fetch_log :: "DataFetchLog list"

definition empty_db :: database where
  "empty_db = \<lparr>market_data = [], recession_periods = [], data_fetch_log = []\<rparr>"

definition merge_db :: "database \<Rightarrow> database \<Rightarrow> database" where
  "merge_db a b =
     \<lparr>market_data = market_data a @ market_data b,
      recession_periods = recession_periods a @ recession_periods b,
      data_fetch_log = data_fetch_log a @ data_fetch_log b\<rparr>"

section \<open>The database session (database.py)\<close>

text \<open>
  The session keeps the rows as of the last commit (\<open>committed\<close>), the rows as the
  queries of the running transaction see them (\<open>working\<close>: flushed inserts, and the
  attribute writes to loaded objects), and the objects passed to \<open>db.add\<close> and not yet
  flushed (\<open>pending\<close>). A query flushes the pending objects first only when
  \<open>autoflush\<close> is set. \<open>faults\<close> is the outcome of the round trips to come (True: the
  round trip raises; the empty list: none fails). \<open>in_transaction\<close> says that the running
  transaction has reached the database: a session that ran no query and has nothing to
  flush holds no connection, and its commit sends nothing. Attribute writes happen only to
  objects that a query has loaded, so such a session has no changed object either.
  \<open>rollback\<close> itself is taken not to fail.
\<close>

record session =
  autoflush :: bool
  committed :: database
  working :: database
  pending :: database
  faults :: "bool list"
  inactive :: bool
  in_transaction :: bool

text \<open>\<open>SessionLocal = sessionmaker(autocommit=False, autoflush=False, bind=engine)\<close>\<close>

definition SessionLocal :: "database \<Rightarrow> bool list \<Rightarrow> session" where
  "SessionLocal db fs =
     \<lparr>autoflush = False, committed = db, working = db, pending = empty_db,
      faults = fs, inactive = False, in_transaction = False\<rparr>"

definition db_call :: "session \<Rightarrow> error option \<times> session" where
  "db_call s =
     (if inactive s then (Some PendingRollbackError, s)
      else case faults s of
             [] \<Rightarrow> (None, s\<lparr>in_transaction := True\<rparr>)
           | f # fs \<Rightarrow>
               (if f then Some OperationalError else None,
                s\<lparr>faults := fs, in_transaction := True\<rparr>))"

definition flush_pending :: "session \<Rightarrow> session" where
  "flush_pending s = s\<lparr>working := merge_db (working s) (pending s), pending := empty_db\<rparr>"

definition run_query :: "session \<Rightarrow> error option \<times> session" where
  "run_query s =
     (case db_call s of
        (Some e, s') \<Rightarrow> (Some e, s')
      | (None, s') \<Rightarrow> (None, if autoflush s' then flush_pending s' else s'))"

definition commit :: "session \<Rightarrow> error option \<times> session" where
  "commit s =
     (if \<not> inactive s \<and> \<not> in_transaction s \<and> pending s = empty_db then (None, s)
      else
        (case db_call s of
           (Some e, s') \<Rightarrow> (Some e, s'\<lparr>inactive := True\<rparr>)
         | (None, s') \<Rightarrow>
             (let s'' = flush_pending s'
              in (None, s''\<lparr>committed := working s'', in_transaction := False\<rparr>))))"

definition rollback :: "session \<Rightarrow> session" where
  "rollback s =
     s\<lparr>working := committed s, pending := empty_db, inactive := False, in_transaction := False\<rparr>"

definition add_market_data :: "MarketData \<Rightarrow> session \<Rightarrow> session" where
  "add_market_data r s =
     s\<lparr>pending := (pending s)\<lparr>market_data := market_data (pending s) @ [r]\<rparr>\<rparr>"

definition add_recession_period :: "RecessionPeriod \<Rightarrow> session \<Rightarrow> session" where
  "add_recession_period r s =
     s\<lparr>pending := (pending s)\<lparr>recession_periods := recession_periods (pending s) @ [r]\<rparr>\<rparr>"

definition add_fetch_log :: "DataFetchLog \<Rightarrow> session \<Rightarrow> session" where
  "add_fetch_log r s =
     s\<lparr>pending := (pending s)\<lparr>data_fetch_log := data_fetch_log (pending s) @ [r]\<rparr>\<rparr>"

text \<open>Writing attributes of the first row that a query returned.\<close>

fun update_first :: "('a \<Rightarrow> bool) \<Rightarrow> ('a \<Rightarrow> 'a) \<Rightarrow> 'a list \<Rightarrow> 'a list" where
  "update_first P f [] = []"
| "update_first P f (x # xs) = (if P x then f x # xs else x # update_first P f xs)"

definition update_market_data ::
  "(MarketData \<Rightarrow> bool) \<Rightarrow> (MarketData \<Rightarrow> MarketData) \<Rightarrow> session \<Rightarrow> session" where
  "update_market_data P f s =
     s\<lparr>working := (working s)\<lparr>market_data := update_first P f (market_data (working s))\<rparr>\<rparr>"

section \<open>Ingestion (fred_service.py, store_series_data)\<close>

text \<open>
  A fetched series is the list of its (date, value) items in order, as
  \<open>data.items()\<close> yields them; a date may occur more than once, since the index of a
  \<open>pd.Series\<close> may repeat. The value \<open>None\<close> is the NaN of a missing observation
  (\<open>pd.isna\<close>). A value that is present is the real number the float stands for: the
  service compares values with 0 and 1 and stores them, and computes nothing from them.
\<close>

type_synonym series = "(datetime \<times> real option) list"

definition key_is :: "datetime \<Rightarrow> string \<Rightarrow> MarketData \<Rightarrow> bool" where
  "key_is d sid r \<longleftrightarrow> date r = d \<and> series_id r = sid"

fun store_rows ::
  "string \<Rightarrow> string \<Rightarrow> datetime \<Rightarrow> series \<Rightarrow> nat \<Rightarrow> session \<Rightarrow> (error + nat) \<times> session" where
  "store_rows sid sname now [] n s = (Inr n, s)"
| "store_rows sid sname now ((d, v) # rest) n s =
     (case v of
        None \<Rightarrow> store_rows sid sname now rest n s
      | Some x \<Rightarrow>
          (case run_query s of
             (Some e, s') \<Rightarrow> (Inl e, s')
           | (None, s') \<Rightarrow>
               (case find (key_is d sid) (market_data (working s')) of
                  Some existing \<Rightarrow>
                    store_rows sid sname now rest (n + 1)
                      (update_market_data (key_is d sid)
                         (\<lambda>r. r\<lparr>val := x, updated_at := now\<rparr>) s')
                | None \<Rightarrow>
                    store_rows sid sname now rest (n + 1)
                      (add_market_data
                         \<lparr>date = d, series_id = sid, series_name = sname, val = x,
                          created_at = now, updated_at = now\<rparr> s'))))"

definition store_series_data ::
  "session \<Rightarrow> string \<Rightarrow> string \<Rightarrow> series \<Rightarrow> datetime \<Rightarrow> (error + nat) \<times> session" where
  "store_series_data s sid sname data now =
     (case store_rows sid sname now data 0 s of
        (Inl e, s') \<Rightarrow> (Inl e, rollback s')
      | (Inr n, s') \<Rightarrow>
          (case commit s' of
             (Some e, s'') \<Rightarrow> (Inl e, rollback s'')
           | (None, s'') \<Rightarrow> (Inr n, s'')))"

text \<open>The number of items of a series that are not missing.\<close>

definition present :: "series \<Rightarrow> nat" where
  "present data = length (filter (\<lambda>(d, v). v \<noteq> None) data)"

text \<open>
  The Observation table as a commit of the session would leave it: the rows the
  transaction sees, then the rows still pending.
\<close>

definition visible :: "session \<Rightarrow> MarketData list" where
  "visible s = market_data (working s) @ market_data (pending s)"

text \<open>
  The round trips of one call of \<open>store_series_data\<close> on a fresh session: one query
  per item that is not missing, then the commit; none at all when every item is missing,
  since the commit of a session that did nothing sends nothing.
\<close>

definition round_trips :: "series \<Rightarrow> nat" where
  "round_trips data = (if present data = 0 then 0 else Suc (present data))"

text \<open>The dates of the items that are not missing, in order.\<close>

definition present_dates :: "series \<Rightarrow> datetime list" where
  "present_dates data = map fst (filter (\<lambda>(d, v). v \<noteq> None) data)"

text \<open>A session between two calls: no transaction is running.\<close>

definition clean :: "session \<Rightarrow> bool" where
  "clean s \<longleftrightarrow>
     working s = committed s \<and> pending s = empty_db \<and> \<not> inactive s \<and> \<not> in_transaction s"

text \<open>A sequence of calls (series id, series name, fetched data, time of the call).\<close>

fun store_calls :: "session \<Rightarrow> (string \<times> string \<times> series \<times> datetime) list \<Rightarrow> session" where
  "store_calls s [] = s"
| "store_calls s ((sid, sname, data, now) # calls) =
     store_calls (snd (store_series_data s sid sname data now)) calls"



definition natural_key :: "MarketData \<Rightarrow> datetime \<times> string" where
  "natural_key r = (date r, series_id r)"

section \<open>The data provider (fred_service.py, fetch_series_data and get_series_info)\<close>

text \<open>
  The FRED client is outside the repository: it is a parameter, a pair of functions
  giving the provider's answer to each request. Every request the service sends is
  appended to the list \<open>sent\<close>.
\<close>

datatype request =
    GetSeries string string "string option"
  | GetSeriesInfo string

record fred_client =
  series_answer :: "string \<Rightarrow> string \<Rightarrow> string option \<Rightarrow> error + series"
  info_answer :: "string \<Rightarrow> error + (string \<times> string) list"

definition fred_get_series ::
  "fred_client \<Rightarrow> string \<Rightarrow> string \<Rightarrow> string option \<Rightarrow> request list
     \<Rightarrow> (error + series) \<times> request list" where
  "fred_get_series fred sid observation_start observation_end sent =
     (series_answer fred sid observation_start observation_end,
      sent @ [GetSeries sid observation_start observation_end])"

definition fred_get_series_info ::
  "fred_client \<Rightarrow> string \<Rightarrow> request list \<Rightarrow> (error + (string \<times> string) list) \<times> request list" where
  "fred_get_series_info fred sid sent = (info_answer fred sid, sent @ [GetSeriesInfo sid])"

definition fetch_series_data ::
  "fred_client \<Rightarrow> string \<Rightarrow> string \<Rightarrow> string option \<Rightarrow> request list
     \<Rightarrow> (error + series) \<times> request list" where
  "fetch_series_data fred sid start end sent =
     (case fred_get_series fred sid start end sent of
        (Inr data, sent') \<Rightarrow> (Inr data, sent')
      | (Inl e, sent') \<Rightarrow> (Inl e, sent'))"

definition info_keys :: "string list" where
  "info_keys = [''id'', ''title'', ''units'', ''frequency'', ''seasonal_adjustment'',
                ''last_updated'']"

text \<open>A failure of the provider and a missing key are both caught: the result is \<open>{}\<close>.\<close>

definition get_series_info ::
  "fred_client \<Rightarrow> string \<Rightarrow> request list \<Rightarrow> (string \<times> string) list \<times> request list" where
  "get_series_info fred sid sent =
     (case fred_get_series_info fred sid sent of
        (Inl e, sent') \<Rightarrow> ([], sent')
      | (Inr info, sent') \<Rightarrow>
          (case those (map (\<lambda>k. map_option (Pair k) (map_of info k)) info_keys) of
             None \<Rightarrow> ([], sent')
           | Some d \<Rightarrow> (d, sent')))"

section \<open>Parsing the start date (datetime.strptime with the format %Y-%m-%d)\<close>

definition digit :: "char \<Rightarrow> bool" where
  "digit c \<longleftrightarrow> 48 \<le> (of_char c :: nat) \<and> (of_char c :: nat) \<le> 57"

definition digit_val :: "char \<Rightarrow> nat" where
  "digit_val c = of_char c - 48"

definition nonzero_digit :: "char \<Rightarrow> bool" where
  "nonzero_digit c \<longleftrightarrow> digit c \<and> c \<noteq> CHR ''0''"

text \<open>The directive %m is the pattern \<open>1[0-2]|0[1-9]|[1-9]\<close>.\<close>

fun parse_month :: "string \<Rightarrow> (nat \<times> string) option" where
  "parse_month (c1 # c2 # rest) =
     (if c1 = CHR ''1'' \<and> c2 \<in> {CHR ''0'', CHR ''1'', CHR ''2''}
        then Some (10 + digit_val c2, rest)
      else if c1 = CHR ''0'' \<and> nonzero_digit c2 then Some (digit_val c2, rest)
      else if nonzero_digit c1 then Some (digit_val c1, c2 # rest)
      else None)"
| "parse_month [c1] = (if nonzero_digit c1 then Some (digit_val c1, []) else None)"
| "parse_month [] = None"

text \<open>The directive %d is the pattern \<open>3[01]|[12]\d|0[1-9]|[1-9]| [1-9]\<close>.\<close>

fun parse_day :: "string \<Rightarrow> (nat \<times> string) option" where
  "parse_day (c1 # c2 # rest) =
     (if c1 = CHR ''3'' \<and> c2 \<in> {CHR ''0'', CHR ''1''} then Some (30 + digit_val c2, rest)
      else if c1 \<in> {CHR ''1'', CHR ''2''} \<and> digit c2
        then Some (10 * digit_val c1 + digit_val c2, rest)
      else if c1 = CHR ''0'' \<and> nonzero_digit c2 then Some (digit_val c2, rest)
      else if nonzero_digit c1 then Some (digit_val c1, c2 # rest)
      else if c1 = CHR '' '' \<and> nonzero_digit c2 then Some (digit_val c2, rest)
      else None)"
| "parse_day [c1] = (if nonzero_digit c1 then Some (digit_val c1, []) else None)"
| "parse_day [] = None"

definition leap_year :: "nat \<Rightarrow> bool" where
  "leap_year y \<longleftrightarrow> y mod 4 = 0 \<and> (y mod 100 \<noteq> 0 \<or> y mod 400 = 0)"

definition days_in_month :: "nat \<Rightarrow> nat \<Rightarrow> nat" where
  "days_in_month y m =
     (if m = 2 then (if leap_year y then 29 else 28)
      else if m \<in> {4, 6, 9, 11} then 30 else 31)"

fun strptime :: "string \<Rightarrow> datetime option" where
  "strptime (y1 # y2 # y3 # y4 # dash1 # rest) =
     (if digit y1 \<and> digit y2 \<and> digit y3 \<and> digit y4 \<and> dash1 = CHR ''-'' then
        (case parse_month rest of
           None \<Rightarrow> None
         | Some (m, rest1) \<Rightarrow>
             (case rest1 of
                [] \<Rightarrow> None
              | dash2 # rest2 \<Rightarrow>
                  if dash2 \<noteq> CHR ''-'' then None
                  else (case parse_day rest2 of
                          None \<Rightarrow> None
                        | Some (d, rest3) \<Rightarrow>
                            (let y = 1000 * digit_val y1 + 100 * digit_val y2
                                       + 10 * digit_val y3 + digit_val y4
                             in if rest3 = [] \<and> 1 \<le> y \<and> d \<le> days_in_month y m
                                then Some (y, m, d) else None))))
      else None)"
| "strptime _ = None"

section \<open>Batch ingestion (fred_service.py, fetch_and_store_all_series)\<close>

text \<open>\<open>settings.fred_series\<close> of config.py, in the order of the dictionary.\<close>

definition fred_series :: "(string \<times> string) list" where
  "fred_series =
     [(''commercial_delinquency'', ''DRBLACBS''),
      (''charge_off_rate'', ''CORBLACBS''),
      (''credit_standards'', ''DRTSCILM''),
      (''loan_demand'', ''DRTSCIS''),
      (''bbb_yield'', ''BAMLC0A4CBBB''),
      (''high_yield_spread'', ''BAMLH0A0HYM2''),
      (''gdp'', ''GDP''),
      (''unemployment'', ''UNRATE''),
      (''fed_funds'', ''FEDFUNDS''),
      (''recession'', ''USREC''),
      (''nonfinancial_debt'', ''TCMDO'')]"

datatype outcome = Success nat string | Failed error

definition bad_format :: "string \<Rightarrow> error" where
  "bad_format start = ValueError start"

text \<open>The body of the \<open>try\<close> block for one series.\<close>

definition try_series ::
  "fred_client \<Rightarrow> string \<Rightarrow> datetime \<Rightarrow> string \<Rightarrow> string \<Rightarrow> session \<Rightarrow> request list
     \<Rightarrow> (error + outcome) \<times> session \<times> request list" where
  "try_series fred start now series_key sid s sent =
     (case get_series_info fred sid sent of
        (info, sent1) \<Rightarrow>
          (let sname = (case map_of info ''title'' of Some t \<Rightarrow> t | None \<Rightarrow> series_key) in
           case fetch_series_data fred sid start None sent1 of
             (Inl e, sent2) \<Rightarrow> (Inl e, s, sent2)
           | (Inr data, sent2) \<Rightarrow>
               (case store_series_data s sid sname data now of
                  (Inl e, s1) \<Rightarrow> (Inl e, s1, sent2)
                | (Inr records_stored, s1) \<Rightarrow>
                    (case strptime start of
                       None \<Rightarrow> (Inl (bad_format start), s1, sent2)
                     | Some sd \<Rightarrow>
                         (case commit (add_fetch_log
                                 \<lparr>log_series_id = sid, fetch_date = now, status = ''success'',
                                  records_fetched = records_stored, error_message = None,
                                  log_start_date = sd, log_end_date = Some now\<rparr> s1) of
                            (Some e, s2) \<Rightarrow> (Inl e, s2, sent2)
                          | (None, s2) \<Rightarrow> (Inr (Success records_stored sname), s2, sent2))))))"

text \<open>The loop over the configured series, with the \<open>except\<close> handler of each.\<close>

fun fetch_all ::
  "fred_client \<Rightarrow> string \<Rightarrow> datetime \<Rightarrow> (string \<times> string) list \<Rightarrow> (string \<rightharpoonup> outcome)
     \<Rightarrow> session \<Rightarrow> request list
     \<Rightarrow> (error + (string \<rightharpoonup> outcome)) \<times> session \<times> request list" where
  "fetch_all fred start now [] results s sent = (Inr results, s, sent)"
| "fetch_all fred start now ((series_key, sid) # rest) results s sent =
     (case try_series fred start now series_key sid s sent of
        (Inr out, s1, sent1) \<Rightarrow>
          fetch_all fred start now rest (results(series_key \<mapsto> out)) s1 sent1
      | (Inl e, s1, sent1) \<Rightarrow>
          (case strptime start of
             None \<Rightarrow> (Inl (bad_format start), s1, sent1)
           | Some sd \<Rightarrow>
               (case commit (add_fetch_log
                       \<lparr>log_series_id = sid, fetch_date = now, status = ''failed'',
                        records_fetched = 0, error_message = Some e,
                        log_start_date = sd, log_end_date = None\<rparr> s1) of
                  (Some e', s2) \<Rightarrow> (Inl e', s2, sent1)
                | (None, s2) \<Rightarrow>
                    fetch_all fred start now rest
                      (results(series_key \<mapsto> Failed e)) s2 sent1)))"

definition fetch_and_store_all_series ::
  "fred_client \<Rightarrow> (string \<times> string) list \<Rightarrow> session \<Rightarrow> string \<Rightarrow> datetime \<Rightarrow> request list
     \<Rightarrow> (error + (string \<rightharpoonup> outcome)) \<times> session \<times> request list" where
  "fetch_and_store_all_series fred series_config s start now sent =
     fetch_all fred start now series_config Map.empty s sent"

text \<open>
  The requests a complete batch sends: for each configured series the metadata, then the
  observations from the start date on, with no end date.
\<close>

definition batch_requests :: "string \<Rightarrow> (string \<times> string) list \<Rightarrow> request list" where
  "batch_requests start cfg =
     concat (map (\<lambda>(series_key, sid). [GetSeriesInfo sid, GetSeries sid start None]) cfg)"

text \<open>An audit row that records the outcome of one series.\<close>

definition records_outcome :: "string \<Rightarrow> outcome \<Rightarrow> DataFetchLog \<Rightarrow> bool" where
  "records_outcome sid out l \<longleftrightarrow>
     log_series_id l = sid \<and>
     (case out of
        Success n sname \<Rightarrow>
          status l = ''success'' \<and> records_fetched l = n \<and> error_message l = None
      | Failed e \<Rightarrow>
          status l = ''failed'' \<and> records_fetched l = 0 \<and> error_message l = Some e)"

section \<open>Interval derivation (fred_service.py, process_recession_indicators)\<close>

fun str_nat :: "nat \<Rightarrow> string" where
  "str_nat n =
     (if n < 10 then [char_of (48 + n)] else str_nat (n div 10) @ [char_of (48 + n mod 10)])"

declare str_nat.simps [simp del]

definition recession_names :: "(nat \<times> string) list" where
  "recession_names =
     [(1980, ''Early 1980s Recession''),
      (1981, ''1981-1982 Recession''),
      (1990, ''Early 1990s Recession''),
      (2001, ''Early 2000s Recession''),
      (2007, ''Great Recession''),
      (2020, ''COVID-19 Recession'')]"

definition get_recession_name :: "datetime \<Rightarrow> string" where
  "get_recession_name start =
     (case find (\<lambda>(recession_year, nm). \<bar>int (year start) - int recession_year\<bar> \<le> 1)
             recession_names of
        Some (recession_year, nm) \<Rightarrow> nm
      | None \<Rightarrow> str_nat (year start) @ '' Recession'')"

text \<open>
  The check "does a period with this start date exist" and the insert that follows
  it, shared by the loop and by the handling of an ongoing recession.
\<close>

definition record_period ::
  "datetime \<Rightarrow> datetime option \<Rightarrow> datetime option \<Rightarrow> session \<Rightarrow> error option \<times> session" where
  "record_period now recession_start ending s =
     (case run_query s of
        (Some e, s') \<Rightarrow> (Some e, s')
      | (None, s') \<Rightarrow>
          (case recession_start of
             None \<Rightarrow> (Some AttributeError, s')
           | Some start \<Rightarrow>
               (case find (\<lambda>p. start_date p = start) (recession_periods (working s')) of
                  Some existing \<Rightarrow> (None, s')
                | None \<Rightarrow>
                    (None, add_recession_period
                       \<lparr>start_date = start, end_date = ending,
                        name = get_recession_name start, description = None,
                        rp_created_at = now\<rparr> s'))))"

fun scan_records ::
  "datetime \<Rightarrow> MarketData list \<Rightarrow> bool \<Rightarrow> datetime option \<Rightarrow> session
     \<Rightarrow> (error + bool \<times> datetime option) \<times> session" where
  "scan_records now [] in_recession recession_start s =
     (Inr (in_recession, recession_start), s)"
| "scan_records now (r # rest) in_recession recession_start s =
     (if val r = 1 \<and> \<not> in_recession then scan_records now rest True (Some (date r)) s
      else if val r = 0 \<and> in_recession then
        (case record_period now recession_start (Some (date r)) s of
           (Some e, s') \<Rightarrow> (Inl e, s')
         | (None, s') \<Rightarrow> scan_records now rest False None s')
      else scan_records now rest in_recession recession_start s)"

definition usrec_rows :: "MarketData list \<Rightarrow> MarketData list" where
  "usrec_rows rows = sort_key date (filter (\<lambda>r. series_id r = ''USREC'') rows)"

definition process_recession_indicators :: "session \<Rightarrow> datetime \<Rightarrow> (error + unit) \<times> session" where
  "process_recession_indicators s now =
     (case run_query s of
        (Some e, s1) \<Rightarrow> (Inl e, rollback s1)
      | (None, s1) \<Rightarrow>
          (let recession_data = usrec_rows (market_data (working s1)) in
           if recession_data = [] then (Inr (), s1)
           else
             (case scan_records now recession_data False None s1 of
                (Inl e, s2) \<Rightarrow> (Inl e, rollback s2)
              | (Inr (in_recession, recession_start), s2) \<Rightarrow>
                  (case (if in_recession \<and> recession_start \<noteq> None
                         then record_period now recession_start None s2
                         else (None, s2)) of
                     (Some e, s3) \<Rightarrow> (Inl e, rollback s3)
                   | (None, s3) \<Rightarrow>
                       (case commit s3 of
                          (Some e, s4) \<Rightarrow> (Inl e, rollback s4)
                        | (None, s4) \<Rightarrow> (Inr (), s4))))))"

text \<open>
  The interval table and the audit table as a commit of the session would leave them.
\<close>

definition rp_visible :: "session \<Rightarrow> RecessionPeriod list" where
  "rp_visible s = recession_periods (working s) @ recession_periods (pending s)"

definition log_visible :: "session \<Rightarrow> DataFetchLog list" where
  "log_visible s = data_fetch_log (working s) @ data_fetch_log (pending s)"

definition open_periods :: "database \<Rightarrow> RecessionPeriod list" where
  "open_periods db = filter (\<lambda>p. end_date p = None) (recession_periods db)"

section \<open>Sample data\<close>

text \<open>A provider that rejects every request for observations, as FRED rejects a bad range.\<close>

definition rejecting_fred :: fred_client where
  "rejecting_fred =
     \<lparr>series_answer = (\<lambda>sid start end. Inl (FredError ''Bad Request'')),
      info_answer = (\<lambda>sid. Inl (FredError ''Bad Request''))\<rparr>"

text \<open>The indicator on the first days of consecutive months, and two later states of it.\<close>

definition indicator_011 :: series where
  "indicator_011 = [((2020, 1, 1), Some 0), ((2020, 2, 1), Some 1), ((2020, 3, 1), Some 1)]"

definition indicator_0110 :: series where
  "indicator_0110 = indicator_011 @ [((2020, 4, 1), Some 0)]"

definition indicator_01101 :: series where
  "indicator_01101 = indicator_0110 @ [((2020, 5, 1), Some 1)]"

text \<open>A provider that has the recession indicator only, and a configuration of two series.\<close>

definition indicator_only_fred :: fred_client where
  "indicator_only_fred =
     \<lparr>series_answer = (\<lambda>sid start end.
        if sid = ''USREC'' then Inr indicator_011 else Inl (FredError ''Bad Request'')),
      info_answer = (\<lambda>sid. Inl (FredError ''Bad Request''))\<rparr>"

definition two_series :: "(string \<times> string) list" where
  "two_series = [(''gdp'', ''GDP''), (''recession'', ''USREC'')]"

text \<open>A store with an interval still open and a later recession that has ended.\<close>

definition indicator_row :: "datetime \<Rightarrow> real \<Rightarrow> MarketData" where
  "indicator_row d v =
     \<lparr>date = d, series_id = ''USREC'', series_name = ''rec'', val = v,
      created_at = (2024, 1, 1), updated_at = (2024, 1, 1)\<rparr>"

definition old_period :: RecessionPeriod where
  "old_period =
     \<lparr>start_date = (2019, 6, 1), end_date = None, name = ''2019 Recession'',
      description = None, rp_created_at = (2019, 7, 1)\<rparr>"

definition sample_db :: database where
  "sample_db =
     \<lparr>market_data = [indicator_row (2019, 5, 1) 0, indicator_row (2019, 6, 1) 1,
                      indicator_row (2019, 7, 1) 0, indicator_row (2020, 2, 1) 1,
                      indicator_row (2020, 3, 1) 0],
      recession_periods = [old_period], data_fetch_log = []\<rparr>"

text \<open>Ingesting a state of the indicator and deriving the intervals, without any fault.\<close>

definition refresh :: "series \<Rightarrow> datetime \<Rightarrow> session \<Rightarrow> session" where
  "refresh data now s =
     snd (process_recession_indicators (snd (store_series_data s ''USREC'' ''rec'' data now)) now)"

definition sample_row :: MarketData where
  "sample_row = \<lparr>date = (2020, 2, 1), series_id = ''USREC'', series_name = ''rec'', val = 1,
                 created_at = (2020, 3, 1), updated_at = (2020, 3, 1)\<rparr>"

section \<open>Properties of the session\<close>

lemma present_simps [simp]:
  "present [] = 0"
  "present ((d, None) # rest) = present rest"
  "present ((d, Some x) # rest) = Suc (present rest)"
  by (simp_all add: present_def)

lemma SessionLocal_simps [simp]:
  "autoflush (SessionLocal db fs) = False"
  "committed (SessionLocal db fs) = db"
  "working (SessionLocal db fs) = db"
  "pending (SessionLocal db fs) = empty_db"
  "faults (SessionLocal db fs) = fs"
  "inactive (SessionLocal db fs) = False"
  "in_transaction (SessionLocal db fs) = False"
  by (simp_all add: SessionLocal_def)

lemma empty_db_simps [simp]:
  "market_data empty_db = []"
  "recession_periods empty_db = []"
  "data_fetch_log empty_db = []"
  by (simp_all add: empty_db_def)

lemma merge_db_simps [simp]:
  "market_data (merge_db a b) = market_data a @ market_data b"
  "recession_periods (merge_db a b) = recession_periods a @ recession_periods b"
  "data_fetch_log (merge_db a b) = data_fetch_log a @ data_fetch_log b"
  by (simp_all add: merge_db_def)

lemma merge_db_empty [simp]: "merge_db a empty_db = a"
  by (simp add: merge_db_def empty_db_def)

lemma rollback_simps [simp]:
  "committed (rollback s) = committed s"
  "working (rollback s) = committed s"
  "pending (rollback s) = empty_db"
  "inactive (rollback s) = False"
  "in_transaction (rollback s) = False"
  "autoflush (rollback s) = autoflush s"
  "faults (rollback s) = faults s"
  by (simp_all add: rollback_def)

lemma clean_SessionLocal [simp]: "clean (SessionLocal db fs)"
  by (simp add: clean_def)

lemma clean_rollback [simp]: "clean (rollback s)"
  by (simp add: clean_def)

lemma db_call_frame [simp]:
  "committed (snd (db_call s)) = committed s"
  "working (snd (db_call s)) = working s"
  "pending (snd (db_call s)) = pending s"
  "autoflush (snd (db_call s)) = autoflush s"
  "inactive (snd (db_call s)) = inactive s"
  by (simp_all add: db_call_def split: list.splits)

lemma run_query_committed [simp]: "committed (snd (run_query s)) = committed s"
  by (auto simp: run_query_def db_call_def flush_pending_def split: list.splits)

lemma run_query_visible [simp]: "visible (snd (run_query s)) = visible s"
  by (auto simp: run_query_def db_call_def visible_def flush_pending_def split: list.splits)

lemma run_query_pending_subset:
  "set (market_data (pending (snd (run_query s)))) \<subseteq> set (market_data (pending s))"
  by (auto simp: run_query_def db_call_def flush_pending_def split: list.splits)

lemma run_query_cases:
  assumes "\<not> inactive s"
  obtains (ok) s' where "run_query s = (None, s')" "faults s = [] \<or> hd (faults s) = False"
      "faults s' = tl (faults s)" "\<not> inactive s'" "autoflush s' = autoflush s" "in_transaction s'"
    | (fail) s' where "run_query s = (Some OperationalError, s')" "faults s \<noteq> []"
      "hd (faults s)" "\<not> inactive s'"
proof (cases "faults s \<noteq> [] \<and> hd (faults s)")
  case True
  let ?s' = "s\<lparr>faults := tl (faults s), in_transaction := True\<rparr>"
  have "run_query s = (Some OperationalError, ?s')"
    using assms True by (cases "faults s") (auto simp: run_query_def db_call_def)
  moreover have "\<not> inactive ?s'" using assms by simp
  ultimately show ?thesis using True fail[of ?s'] by blast
next
  case False
  let ?t = "s\<lparr>faults := tl (faults s), in_transaction := True\<rparr>"
  let ?s' = "if autoflush s then flush_pending ?t else ?t"
  have "run_query s = (None, ?s')"
    using assms False
    by (cases "faults s") (auto simp: run_query_def db_call_def flush_pending_def)
  moreover have "faults ?s' = tl (faults s)" "\<not> inactive ?s'" "autoflush ?s' = autoflush s"
      "in_transaction ?s'"
    using assms by (simp_all add: flush_pending_def)
  ultimately show ?thesis using ok[of ?s'] False by blast
qed

lemma commit_noop:
  "\<not> inactive s \<Longrightarrow> \<not> in_transaction s \<Longrightarrow> pending s = empty_db \<Longrightarrow> commit s = (None, s)"
  by (simp add: commit_def)

lemma commit_cases:
  assumes "\<not> inactive s" "in_transaction s \<or> pending s \<noteq> empty_db"
  obtains (ok) s' where "commit s = (None, s')" "faults s = [] \<or> hd (faults s) = False"
      "faults s' = tl (faults s)" "autoflush s' = autoflush s"
      "committed s' = merge_db (working s) (pending s)" "clean s'"
    | (fail) s' where "commit s = (Some OperationalError, s')" "faults s \<noteq> []" "hd (faults s)"
        "committed s' = committed s" "faults s' = tl (faults s)" "autoflush s' = autoflush s"
proof (cases "faults s \<noteq> [] \<and> hd (faults s)")
  case True
  let ?s' = "s\<lparr>faults := tl (faults s), in_transaction := True, inactive := True\<rparr>"
  have "commit s = (Some OperationalError, ?s')"
    using assms True by (cases "faults s") (auto simp: commit_def db_call_def)
  with True fail[of ?s'] show ?thesis by simp
next
  case False
  let ?s' = "(flush_pending (s\<lparr>faults := tl (faults s), in_transaction := True\<rparr>))
               \<lparr>committed := merge_db (working s) (pending s), in_transaction := False\<rparr>"
  have "commit s = (None, ?s')"
    using assms False
    by (cases "faults s") (auto simp: commit_def db_call_def flush_pending_def)
  moreover have "faults ?s' = tl (faults s)" "autoflush ?s' = autoflush s"
     "committed ?s' = merge_db (working s) (pending s)" "clean ?s'"
    using assms by (simp_all add: flush_pending_def clean_def)
  ultimately show ?thesis using ok[of ?s'] False by blast
qed

lemma commit_fail_committed:
  "commit s = (Some e, s') \<Longrightarrow> committed s' = committed s"
  by (auto simp: commit_def db_call_def Let_def split: if_splits list.splits)

lemma first_fault_position:
  assumes "True \<in> set (take (Suc k) fs)" "True \<notin> set (take k fs)"
  shows "k < length fs \<and> fs ! k"
proof (cases "k < length fs")
  case True
  then have "take (Suc k) fs = take k fs @ [fs ! k]" by (simp add: take_Suc_conv_app_nth)
  with assms True show ?thesis by auto
next
  case False
  with assms show ?thesis by simp
qed

section \<open>Properties of the ingestion\<close>

lemma store_rows_committed:
  "committed (snd (store_rows sid sname now data n s)) = committed s"
proof (induction data arbitrary: n s)
  case Nil
  then show ?case by simp
next
  case (Cons a data)
  obtain d v where a: "a = (d, v)" by (cases a)
  show ?case
  proof (cases v)
    case None
    with a Cons show ?thesis by simp
  next
    case (Some x)
    obtain r s' where q: "run_query s = (r, s')" by (cases "run_query s")
    then have c: "committed s' = committed s"
      by (metis run_query_committed snd_conv)
    show ?thesis using a Some q c Cons
      by (simp add: update_market_data_def add_market_data_def split: option.splits)
  qed
qed

lemma store_rows_nothing:
  "present data = 0 \<Longrightarrow> store_rows sid sname now data n s = (Inr n, s)"
proof (induction data)
  case Nil
  then show ?case by simp
next
  case (Cons a data)
  obtain d v where a: "a = (d, v)" by (cases a)
  with Cons show ?case by (cases v) simp_all
qed

lemma store_rows_faults:
  "\<not> inactive s \<Longrightarrow>
   (case store_rows sid sname now data n s of
      (Inl e, s') \<Rightarrow> e = OperationalError \<and> True \<in> set (take (present data) (faults s))
          \<and> \<not> inactive s'
    | (Inr m, s') \<Rightarrow> m = n + present data \<and> True \<notin> set (take (present data) (faults s))
          \<and> faults s' = drop (present data) (faults s) \<and> \<not> inactive s'
          \<and> (in_transaction s \<or> 0 < present data \<longrightarrow> in_transaction s'))"
proof (induction data arbitrary: n s)
  case Nil
  then show ?case by simp
next
  case (Cons a data)
  obtain d v where a: "a = (d, v)" by (cases a)
  show ?case
  proof (cases v)
    case None
    with a Cons.IH[OF Cons.prems, of n] show ?thesis
      by (simp split: prod.splits sum.splits)
  next
    case (Some x)
    from Cons.prems show ?thesis
    proof (cases rule: run_query_cases)
      case (ok s')
      let ?s1 = "update_market_data (key_is d sid) (\<lambda>r. r\<lparr>val := x, updated_at := now\<rparr>) s'"
      let ?s2 = "add_market_data \<lparr>date = d, series_id = sid, series_name = sname, val = x,
                          created_at = now, updated_at = now\<rparr> s'"
      have i1: "\<not> inactive ?s1" "faults ?s1 = tl (faults s)" "in_transaction ?s1"
        using ok by (simp_all add: update_market_data_def)
      have i2: "\<not> inactive ?s2" "faults ?s2 = tl (faults s)" "in_transaction ?s2"
        using ok by (simp_all add: add_market_data_def)
      have tk: "True \<in> set (take (Suc k) (faults s)) \<longleftrightarrow> True \<in> set (take k (tl (faults s)))"
        for k
        using ok(2) by (cases "faults s") auto
      have dr: "drop (Suc k) (faults s) = drop k (tl (faults s))" for k
        by (cases "faults s") auto
      show ?thesis
      proof (cases "find (key_is d sid) (market_data (working s'))")
        case None
        with Cons.IH[OF i2(1), of "n + 1"] a Some ok(1) i2(2,3) tk dr show ?thesis
          by (simp split: prod.splits sum.splits)
      next
        case (Some ex)
        with Cons.IH[OF i1(1), of "n + 1"] a \<open>v = Some x\<close> ok(1) i1(2,3) tk dr show ?thesis
          by (simp split: prod.splits sum.splits)
      qed
    next
      case (fail s')
      then have "True \<in> set (take (Suc (present data)) (faults s))"
        by (cases "faults s") auto
      with fail a Some show ?thesis by simp
    qed
  qed
qed

lemma store_rows_Inl:
  assumes "\<not> inactive s" "store_rows sid sname now data n s = (Inl e, s')"
  shows "e = OperationalError" "True \<in> set (take (present data) (faults s))" "\<not> inactive s'"
  using store_rows_faults[OF assms(1), where sid=sid and sname=sname and now=now
      and data=data and n=n] assms(2)
  by simp_all

lemma store_rows_Inr:
  assumes "\<not> inactive s" "store_rows sid sname now data n s = (Inr m, s')"
  shows "m = n + present data" "True \<notin> set (take (present data) (faults s))"
    "faults s' = drop (present data) (faults s)" "\<not> inactive s'"
    "in_transaction s \<or> 0 < present data \<Longrightarrow> in_transaction s'"
  using store_rows_faults[OF assms(1), where sid=sid and sname=sname and now=now
      and data=data and n=n] assms(2)
  by simp_all

lemma store_series_data_failure:
  assumes "store_series_data s sid sname data now = (Inl e, s')"
  shows "committed s' = committed s \<and> working s' = committed s \<and> pending s' = empty_db
         \<and> clean s'"
proof -
  obtain r s1 where r: "store_rows sid sname now data 0 s = (r, s1)"
    by (cases "store_rows sid sname now data 0 s")
  then have c1: "committed s1 = committed s"
    by (metis store_rows_committed snd_conv)
  show ?thesis
  proof (cases r)
    case (Inl e1)
    with r assms c1 show ?thesis by (auto simp: store_series_data_def)
  next
    case (Inr m)
    obtain r2 s2 where c: "commit s1 = (r2, s2)" by (cases "commit s1")
    show ?thesis
    proof (cases r2)
      case None
      with r Inr c assms show ?thesis by (simp add: store_series_data_def)
    next
      case (Some e2)
      with c have "committed s2 = committed s1" by (simp add: commit_fail_committed)
      with r Inr c Some assms c1 show ?thesis by (auto simp: store_series_data_def)
    qed
  qed
qed

text \<open>
  Claim C4. When a round trip to the database fails during a call of
  \<open>store_series_data\<close> (one of the queries, or the commit that follows them), the call
  raises the error to its caller, and nothing it wrote is kept: the committed tables are
  those of before the call and the session holds no change of its own.
\<close>

theorem store_series_data_atomic:
  assumes "True \<in> set (take (round_trips data) fs)"
  shows "\<exists>s'. store_series_data (SessionLocal db fs) sid sname data now
                 = (Inl OperationalError, s')
           \<and> committed s' = db \<and> working s' = db \<and> pending s' = empty_db"
proof -
  let ?s = "SessionLocal db fs"
  from assms have pos: "0 < present data"
    and hyp: "True \<in> set (take (Suc (present data)) fs)"
    by (auto simp: round_trips_def split: if_splits)
  obtain r s1 where r: "store_rows sid sname now data 0 ?s = (r, s1)"
    by (cases "store_rows sid sname now data 0 ?s")
  have c1: "committed s1 = db"
    using store_rows_committed[of sid sname now data 0 ?s] r by simp
  show ?thesis
  proof (cases r)
    case (Inl e)
    with r have "e = OperationalError"
      using store_rows_Inl(1)[of ?s sid sname now data 0 e s1] by simp
    with Inl r c1 show ?thesis by (simp add: store_series_data_def)
  next
    case (Inr m)
    with r have nt: "True \<notin> set (take (present data) fs)"
      and fs1: "faults s1 = drop (present data) fs" and ia: "\<not> inactive s1"
      and co: "in_transaction s1"
      using store_rows_Inr[of ?s sid sname now data 0 m s1] pos by simp_all
    from hyp nt have lt: "present data < length fs" and at: "fs ! present data"
      using first_fault_position by blast+
    then have "faults s1 \<noteq> []" "hd (faults s1)"
      using fs1 by (simp_all add: hd_drop_conv_nth)
    from co have co': "in_transaction s1 \<or> pending s1 \<noteq> empty_db" by simp
    from ia co' show ?thesis
    proof (cases rule: commit_cases)
      case (ok s2)
      with \<open>faults s1 \<noteq> []\<close> \<open>hd (faults s1)\<close> show ?thesis by simp
    next
      case (fail s2)
      with Inr r c1 show ?thesis by (simp add: store_series_data_def)
    qed
  qed
qed

theorem store_series_data_atomic_witness:
  "True \<in> set (take (round_trips [((2020, 1, 1), Some 1), ((2020, 2, 1), None)]) [False, True])
   \<and> (\<exists>s'. store_series_data (SessionLocal empty_db [False, True]) ''USREC'' ''rec''
               [((2020, 1, 1), Some 1), ((2020, 2, 1), None)] (2024, 1, 1)
             = (Inl OperationalError, s')
           \<and> committed s' = empty_db \<and> working s' = empty_db \<and> pending s' = empty_db)"
proof -
  have h: "True \<in> set (take (round_trips [((2020, 1, 1), Some 1), ((2020, 2, 1), None)])
                       [False, True])"
    by (simp add: round_trips_def)
  show ?thesis
    using h store_series_data_atomic [OF h, of empty_db "''USREC''" "''rec''" "(2024, 1, 1)"]
    by blast
qed

lemma filter_update_first_other:
  "(\<And>r. P r \<Longrightarrow> \<not> Q r \<and> \<not> Q (f r)) \<Longrightarrow> filter Q (update_first P f xs) = filter Q xs"
  by (induction xs) auto

lemma map_update_first_same:
  "(\<And>r. P r \<Longrightarrow> g (f r) = g r) \<Longrightarrow> map g (update_first P f xs) = map g xs"
  by (induction xs) auto


lemma visible_update [simp]:
  "visible (update_market_data P f s)
     = update_first P f (market_data (working s)) @ market_data (pending s)"
  by (simp add: visible_def update_market_data_def)

lemma visible_add [simp]:
  "visible (add_market_data r s) = visible s @ [r]"
  by (simp add: visible_def add_market_data_def)

lemma store_rows_other_key:
  assumes "\<forall>(d, v) \<in> set data. d = D \<longrightarrow> v = None"
  shows "filter (key_is D sid) (visible (snd (store_rows sid sname now data n s)))
       = filter (key_is D sid) (visible s)"
  using assms
proof (induction data arbitrary: n s)
  case Nil
  then show ?case by simp
next
  case (Cons a data)
  obtain d v where a: "a = (d, v)" by (cases a)
  from Cons.prems have rest: "\<forall>(d, v) \<in> set data. d = D \<longrightarrow> v = None" by simp
  note IH = Cons.IH[OF rest]
  show ?case
  proof (cases v)
    case None
    with a IH show ?thesis by simp
  next
    case (Some x)
    with a Cons.prems have dD: "d \<noteq> D" by auto
    obtain r s' where q: "run_query s = (r, s')" by (cases "run_query s")
    then have v: "visible s' = visible s"
      by (metis run_query_visible snd_conv)
    show ?thesis
    proof (cases r)
      case (Some e)
      with a \<open>v = Some x\<close> q v show ?thesis by simp
    next
      case None
      note rNone = None
      let ?f = "\<lambda>r. r\<lparr>val := x, updated_at := now\<rparr>"
      show ?thesis
      proof (cases "find (key_is d sid) (market_data (working s'))")
        case None
        with a \<open>v = Some x\<close> q rNone v dD IH show ?thesis
          by (simp add: key_is_def)
      next
        case (Some ex)
        have "filter (key_is D sid) (update_first (key_is d sid) ?f (market_data (working s')))
            = filter (key_is D sid) (market_data (working s'))"
          using dD by (intro filter_update_first_other) (simp add: key_is_def)
        then have "filter (key_is D sid) (visible (update_market_data (key_is d sid) ?f s'))
            = filter (key_is D sid) (visible s')"
          by (simp add: visible_def update_market_data_def)
        then have "filter (key_is D sid) (visible (update_market_data (key_is d sid) ?f s'))
            = filter (key_is D sid) (visible s)"
          using v by simp
        with a \<open>v = Some x\<close> q rNone Some IH show ?thesis by simp
      qed
    qed
  qed
qed

lemma present_without:
  "\<forall>(d, v) \<in> set data. d = D \<longrightarrow> v = None \<Longrightarrow>
   present data = length (filter (\<lambda>(d, v). d \<noteq> D \<and> v \<noteq> None) data)"
  unfolding present_def by (rule arg_cong[where f = length], rule filter_cong) auto

lemma store_series_data_success:
  assumes "store_series_data s sid sname data now = (Inr n, s')" "clean s"
  shows "market_data (committed s') = visible (snd (store_rows sid sname now data 0 s))"
    "n = present data" "clean s'"
proof -
  from assms(2) have ia: "\<not> inactive s" and nt: "\<not> in_transaction s"
    and pe: "pending s = empty_db" and wc: "working s = committed s"
    by (simp_all add: clean_def)
  obtain r s1 where r: "store_rows sid sname now data 0 s = (r, s1)"
    by (cases "store_rows sid sname now data 0 s")
  with assms obtain m where m: "r = Inr m"
    by (cases r) (auto simp: store_series_data_def)
  with r ia have ia1: "\<not> inactive s1" and mm: "m = present data"
    using store_rows_Inr[of s sid sname now data 0 m s1] by simp_all
  have "market_data (committed s') = visible s1 \<and> n = present data \<and> clean s'"
  proof (cases "present data = 0")
    case True
    then have "s1 = s" using r store_rows_nothing[of data sid sname now 0 s] by simp
    moreover have "commit s = (None, s)" using ia nt pe by (rule commit_noop)
    ultimately show ?thesis
      using assms r m mm wc pe by (simp add: store_series_data_def visible_def)
  next
    case False
    with r m ia have "in_transaction s1"
      using store_rows_Inr(5)[of s sid sname now data 0 m s1] by simp
    then have "in_transaction s1 \<or> pending s1 \<noteq> empty_db" by simp
    with ia1 show ?thesis
      using assms(1) r m mm
      by (cases rule: commit_cases) (auto simp: store_series_data_def visible_def)
  qed
  with r show "market_data (committed s') = visible (snd (store_rows sid sname now data 0 s))"
    "n = present data" "clean s'" by simp_all
qed

lemma store_series_data_clean:
  assumes "clean s"
  shows "clean (snd (store_series_data s sid sname data now))"
proof -
  obtain r s' where r: "store_series_data s sid sname data now = (r, s')"
    by (cases "store_series_data s sid sname data now")
  show ?thesis
  proof (cases r)
    case (Inl e)
    with r show ?thesis using store_series_data_failure[of s sid sname data now e s'] by simp
  next
    case (Inr n)
    with r assms show ?thesis
      using store_series_data_success(3)[of s sid sname data now n s'] by simp
  qed
qed

text \<open>
  Claim C5, as stated, fails on a series in which the date \<open>D\<close> occurs twice, once
  missing and once present: the present item creates the row and is counted.
\<close>

theorem store_series_data_skips_missing_counterexample:
  "((2020, 2, 1), None) \<in> set [((2020, 2, 1) :: datetime, None), ((2020, 2, 1), Some (1::real))]
   \<and> filter (key_is (2020, 2, 1) ''USREC'') (market_data empty_db) = []
   \<and> filter (key_is (2020, 2, 1) ''USREC'')
        (market_data (committed (snd (store_series_data (SessionLocal empty_db []) ''USREC''
           ''rec'' [((2020, 2, 1), None), ((2020, 2, 1), Some 1)] (2024, 1, 1)))))
      = [\<lparr>date = (2020, 2, 1), series_id = ''USREC'', series_name = ''rec'', val = 1,
          created_at = (2024, 1, 1), updated_at = (2024, 1, 1)\<rparr>]
   \<and> fst (store_series_data (SessionLocal empty_db []) ''USREC''
           ''rec'' [((2020, 2, 1), None), ((2020, 2, 1), Some 1)] (2024, 1, 1)) = Inr 1"
  by (simp add: store_series_data_def run_query_def db_call_def commit_def key_is_def
      add_market_data_def flush_pending_def empty_db_def merge_db_def)

text \<open>
  Claim C5, amended. When every item of the fetched series at date \<open>D\<close> is missing (so,
  in a series with one item per date, when the value at \<open>D\<close> is missing), the rows of
  the Observation table with the key \<open>(D, sid)\<close> are after the call exactly the rows
  of before (none if there was none, the same row with every field unchanged if there
  was one), and the returned count is the number of items that are not missing and
  lie at other dates: \<open>D\<close> is not counted.
\<close>

theorem store_series_data_skips_missing:
  assumes "\<forall>(d, v) \<in> set data. d = D \<longrightarrow> v = None"
  shows "filter (key_is D sid)
           (market_data (committed (snd (store_series_data (SessionLocal db fs) sid sname data now))))
         = filter (key_is D sid) (market_data db)
       \<and> (\<forall>n. fst (store_series_data (SessionLocal db fs) sid sname data now) = Inr n \<longrightarrow>
            n = length (filter (\<lambda>(d, v). d \<noteq> D \<and> v \<noteq> None) data))"
proof -
  let ?s = "SessionLocal db fs"
  obtain r s' where r: "store_series_data ?s sid sname data now = (r, s')"
    by (cases "store_series_data ?s sid sname data now")
  show ?thesis
  proof (cases r)
    case (Inl e)
    with r have "committed s' = db"
      using store_series_data_failure[of ?s sid sname data now e s'] by simp
    with r Inl show ?thesis by simp
  next
    case (Inr n)
    with r have "market_data (committed s') = visible (snd (store_rows sid sname now data 0 ?s))"
      and "n = present data"
      using store_series_data_success(1,2)[of ?s sid sname data now n s'] by simp_all
    moreover have "visible ?s = market_data db" by (simp add: visible_def)
    ultimately show ?thesis
      using store_rows_other_key[OF assms, of sid sname now 0 ?s] present_without[OF assms] r Inr
      by simp
  qed
qed

theorem store_series_data_skips_missing_witness:
  "filter (key_is (2020, 2, 1) ''USREC'')
        (market_data (committed (snd (store_series_data
           (SessionLocal (empty_db\<lparr>market_data := [sample_row]\<rparr>) []) ''USREC'' ''rec''
           [((2020, 1, 1), Some 1), ((2020, 2, 1), None)] (2024, 1, 1)))))
      = [sample_row]
   \<and> fst (store_series_data
           (SessionLocal (empty_db\<lparr>market_data := [sample_row]\<rparr>) []) ''USREC'' ''rec''
           [((2020, 1, 1), Some 1), ((2020, 2, 1), None)] (2024, 1, 1)) = Inr 1"
proof -
  have h: "\<forall>(d, v) \<in> set [((2020, 1, 1) :: datetime, Some (1::real)), ((2020, 2, 1), None)].
             d = (2020, 2, 1) \<longrightarrow> v = None"
    by simp
  have c: "fst (store_series_data
           (SessionLocal (empty_db\<lparr>market_data := [sample_row]\<rparr>) []) ''USREC'' ''rec''
           [((2020, 1, 1), Some 1), ((2020, 2, 1), None)] (2024, 1, 1)) = Inr 1"
    by (simp add: store_series_data_def run_query_def db_call_def commit_def key_is_def
        sample_row_def add_market_data_def flush_pending_def)
  show ?thesis
    using h c store_series_data_skips_missing [OF h, of "''USREC''"
        "empty_db\<lparr>market_data := [sample_row]\<rparr>" "[]" "''rec''" "(2024, 1, 1)"]
    by (simp add: key_is_def sample_row_def)
qed

section \<open>Natural-key uniqueness\<close>

lemma present_dates_simps [simp]:
  "present_dates [] = []"
  "present_dates ((d, None) # rest) = present_dates rest"
  "present_dates ((d, Some x) # rest) = d # present_dates rest"
  by (simp_all add: present_dates_def)


lemma store_rows_distinct:
  assumes "distinct (map natural_key (visible s))"
    and "distinct (present_dates data)"
    and "\<forall>d \<in> set (present_dates data). \<forall>r \<in> set (market_data (pending s)). \<not> key_is d sid r"
  shows "distinct (map natural_key (visible (snd (store_rows sid sname now data n s))))"
  using assms
proof (induction data arbitrary: n s)
  case Nil
  then show ?case by simp
next
  case (Cons a data)
  obtain d v where a: "a = (d, v)" by (cases a)
  show ?case
  proof (cases v)
    case None
    with a Cons.prems Cons.IH[of s n] show ?thesis by simp
  next
    case (Some x)
    note vSome = Some
    from a Some Cons.prems have dn: "d \<notin> set (present_dates data)"
      and dd: "distinct (present_dates data)"
      by simp_all
    obtain r s' where q: "run_query s = (r, s')" by (cases "run_query s")
    then have v: "visible s' = visible s"
      by (metis run_query_visible snd_conv)
    from q have sub: "set (market_data (pending s')) \<subseteq> set (market_data (pending s))"
      by (metis run_query_pending_subset snd_conv)
    have pd: "present_dates (a # data) = d # present_dates data"
      using a vSome by simp
    have A: "\<forall>d' \<in> set (present_dates (a # data)). \<forall>r \<in> set (market_data (pending s')).
               \<not> key_is d' sid r"
      using Cons.prems(3) sub by blast
    then have np: "\<forall>r \<in> set (market_data (pending s')). \<not> key_is d sid r"
      and nrest: "\<forall>d' \<in> set (present_dates data). \<forall>r \<in> set (market_data (pending s')).
                    \<not> key_is d' sid r"
      unfolding pd by simp_all
    show ?thesis
    proof (cases r)
      case (Some e)
      with a vSome q v Cons.prems(1) show ?thesis by simp
    next
      case None
      note rNone = None
      let ?f = "\<lambda>r. r\<lparr>val := x, updated_at := now\<rparr>"
      define new where "new = \<lparr>date = d, series_id = sid, series_name = sname, val = x,
                          created_at = now, updated_at = now\<rparr>"
      have knew: "key_is d' sid new \<longleftrightarrow> d' = d" for d'
        by (auto simp: new_def key_is_def)
      have nknew: "natural_key new = (d, sid)"
        by (simp add: new_def natural_key_def)
      show ?thesis
      proof (cases "find (key_is d sid) (market_data (working s'))")
        case (Some ex)
        let ?s2 = "update_market_data (key_is d sid) ?f s'"
        have "map natural_key (visible ?s2) = map natural_key (visible s')"
          by (simp add: visible_def update_market_data_def map_update_first_same natural_key_def)
        then have 1: "distinct (map natural_key (visible ?s2))"
          using v Cons.prems(1) by simp
        have "market_data (pending ?s2) = market_data (pending s')"
          by (simp add: update_market_data_def)
        then have 3: "\<forall>d \<in> set (present_dates data). \<forall>r \<in> set (market_data (pending ?s2)).
                        \<not> key_is d sid r"
          using nrest by simp
        from Cons.IH[OF 1 dd 3] a vSome q rNone Some show ?thesis by simp
      next
        case None
        let ?s2 = "add_market_data new s'"
        have nw: "\<forall>r \<in> set (market_data (working s')). \<not> key_is d sid r"
          using None by (simp add: find_None_iff)
        have "(d, sid) \<notin> natural_key ` set (visible s')"
          using nw np by (auto simp: visible_def natural_key_def key_is_def)
        then have 1: "distinct (map natural_key (visible ?s2))"
          using v Cons.prems(1) nknew by simp
        have "market_data (pending ?s2) = market_data (pending s') @ [new]"
          by (simp add: add_market_data_def)
        then have 3: "\<forall>d \<in> set (present_dates data). \<forall>r \<in> set (market_data (pending ?s2)).
                        \<not> key_is d sid r"
          using nrest dn knew by auto
        from Cons.IH[OF 1 dd 3] a vSome q rNone None show ?thesis by (simp add: new_def)
      qed
    qed
  qed
qed

lemma store_series_data_keys:
  assumes "clean s" "distinct (map natural_key (market_data (committed s)))"
    "distinct (present_dates data)"
  shows "distinct (map natural_key
           (market_data (committed (snd (store_series_data s sid sname data now)))))"
proof -
  obtain r s' where r: "store_series_data s sid sname data now = (r, s')"
    by (cases "store_series_data s sid sname data now")
  from assms(1) have vis: "visible s = market_data (committed s)"
    and pe: "market_data (pending s) = []"
    by (simp_all add: clean_def visible_def)
  show ?thesis
  proof (cases r)
    case (Inl e)
    with r have "committed s' = committed s"
      using store_series_data_failure[of s sid sname data now e s'] by simp
    with r assms(2) show ?thesis by simp
  next
    case (Inr n)
    with r assms(1)
    have "market_data (committed s') = visible (snd (store_rows sid sname now data 0 s))"
      using store_series_data_success(1)[of s sid sname data now n s'] by simp
    moreover have "distinct (map natural_key (visible (snd (store_rows sid sname now data 0 s))))"
      using assms(2,3) vis pe by (intro store_rows_distinct) simp_all
    ultimately show ?thesis using r by simp
  qed
qed

text \<open>
  Claim C7, as stated, fails: the lookup of \<open>store_series_data\<close> does not see the rows
  the same call has added and not yet flushed (the session is made with
  \<open>autoflush=False\<close>, and the index on (date, series_id) is not unique), so a series in
  which a date occurs twice inserts two rows with one key.
\<close>

theorem natural_key_counterexample:
  "distinct (map natural_key (market_data empty_db))
   \<and> \<not> distinct (map natural_key (market_data (committed (snd
         (store_series_data (SessionLocal empty_db []) ''USREC'' ''rec''
            [((2020, 1, 1), Some 0), ((2020, 1, 1), Some 1)] (2024, 1, 1))))))"
  by (simp add: store_series_data_def run_query_def db_call_def commit_def key_is_def
        add_market_data_def flush_pending_def natural_key_def empty_db_def merge_db_def)

text \<open>
  Claim C7, amended. Starting from a store in which no two Observation rows share
  (date, series_id), after every sequence of calls of \<open>store_series_data\<close> in each of
  which no date occurs twice among the items that are not missing, no two Observation
  rows share (date, series_id).
\<close>

theorem store_calls_natural_key:
  assumes "distinct (map natural_key (market_data db))"
    and "\<forall>(sid, sname, data, now) \<in> set calls. distinct (present_dates data)"
  shows "distinct (map natural_key
           (market_data (committed (store_calls (SessionLocal db fs) calls))))"
proof -
  have "clean s \<Longrightarrow> distinct (map natural_key (market_data (committed s))) \<Longrightarrow>
        \<forall>(sid, sname, data, now) \<in> set calls. distinct (present_dates data) \<Longrightarrow>
        distinct (map natural_key (market_data (committed (store_calls s calls))))" for s
  proof (induction calls arbitrary: s)
    case Nil
    then show ?case by simp
  next
    case (Cons c calls)
    obtain sid sname data now where c: "c = (sid, sname, data, now)" by (cases c)
    let ?s' = "snd (store_series_data s sid sname data now)"
    from Cons.prems(1) have 1: "clean ?s'" by (rule store_series_data_clean)
    from Cons.prems c have "distinct (present_dates data)" by simp
    with Cons.prems have 2: "distinct (map natural_key (market_data (committed ?s')))"
      by (intro store_series_data_keys)
    from Cons.prems(3)
    have 3: "\<forall>(sid, sname, data, now) \<in> set calls. distinct (present_dates data)"
      by simp
    from Cons.IH[OF 1 2 3] c show ?case by simp
  qed
  from this[of "SessionLocal db fs"] assms show ?thesis by simp
qed

theorem store_calls_natural_key_witness:
  "distinct (map natural_key (market_data (empty_db\<lparr>market_data := [sample_row]\<rparr>)))
   \<and> distinct (present_dates [((2020, 1, 1), Some 0), ((2020, 2, 1), Some 1)])
   \<and> distinct (map natural_key (market_data (committed (store_calls
        (SessionLocal (empty_db\<lparr>market_data := [sample_row]\<rparr>) [])
        [(''USREC'', ''rec'', [((2020, 1, 1), Some 0), ((2020, 2, 1), Some 1)], (2024, 1, 1))]))))"
proof -
  have 1: "distinct (map natural_key (market_data (empty_db\<lparr>market_data := [sample_row]\<rparr>)))"
    by simp
  have 2: "\<forall>(sid, sname, data, now) \<in>
             set [(''USREC'', ''rec'',
                   [((2020, 1, 1) :: datetime, Some (0::real)), ((2020, 2, 1), Some 1)],
                   (2024, 1, 1) :: datetime)].
             distinct (present_dates data)"
    by simp
  show ?thesis
    using 1 2 store_calls_natural_key [OF 1 2, of "[]"] by simp
qed

section \<open>Idempotence of the ingestion\<close>












section \<open>The fetch\<close>

text \<open>
  Claim C9, as stated, fails: \<open>fetch_series_data\<close> checks nothing. For a range whose start
  lies after its end the request goes out to the provider, and the error the caller gets
  is the provider's, raised after the fetch.
\<close>

theorem fetch_series_data_counterexample:
  "strptime ''2020-12-31'' = Some (2020, 12, 31) \<and> strptime ''2020-01-01'' = Some (2020, 1, 1)
   \<and> ((2020, 1, 1) :: datetime) < (2020, 12, 31)
   \<and> fetch_series_data rejecting_fred ''USREC'' ''2020-12-31'' (Some ''2020-01-01'') []
      = (Inl (FredError ''Bad Request''),
         [GetSeries ''USREC'' ''2020-12-31'' (Some ''2020-01-01'')])"
  by (simp add: fetch_series_data_def fred_get_series_def rejecting_fred_def digit_def
      digit_val_def nonzero_digit_def days_in_month_def leap_year_def)

text \<open>
  Claim C9, amended. \<open>fetch_series_data\<close> makes no check of the date range: for every
  range, a malformed or inverted one included, it sends one request that carries the
  range unchanged, and returns the provider's data or raises the provider's error. It
  has no access to the store.
\<close>

theorem fetch_series_data_forwards:
  "fetch_series_data fred sid start end sent
     = (series_answer fred sid start end, sent @ [GetSeries sid start end])"
  by (cases "series_answer fred sid start end")
     (simp_all add: fetch_series_data_def fred_get_series_def)

section \<open>Properties of the interval derivation\<close>

lemma run_query_frame [simp]:
  "rp_visible (snd (run_query s)) = rp_visible s"
  "log_visible (snd (run_query s)) = log_visible s"
  "inactive (snd (run_query s)) = inactive s"
  by (auto simp: run_query_def db_call_def rp_visible_def log_visible_def flush_pending_def
      split: list.splits)

lemma run_query_in_transaction:
  "\<not> inactive s \<Longrightarrow> in_transaction (snd (run_query s))"
  by (auto simp: run_query_def db_call_def flush_pending_def split: list.splits)

lemma run_query_working_mono:
  "set (recession_periods (working s)) \<subseteq> set (recession_periods (working (snd (run_query s))))"
  by (auto simp: run_query_def db_call_def flush_pending_def split: list.splits)

lemma record_period_frame [simp]:
  "committed (snd (record_period now st ending s)) = committed s"
  "visible (snd (record_period now st ending s)) = visible s"
  "log_visible (snd (record_period now st ending s)) = log_visible s"
  "inactive (snd (record_period now st ending s)) = inactive s"
proof -
  obtain r s' where q: "run_query s = (r, s')" by (cases "run_query s")
  then have f: "committed s' = committed s" "visible s' = visible s"
      "log_visible s' = log_visible s" "inactive s' = inactive s"
    by (metis run_query_committed run_query_visible run_query_frame(2,3) snd_conv)+
  show "committed (snd (record_period now st ending s)) = committed s"
    "visible (snd (record_period now st ending s)) = visible s"
    "log_visible (snd (record_period now st ending s)) = log_visible s"
    "inactive (snd (record_period now st ending s)) = inactive s"
    using q f
    by (auto simp: record_period_def add_recession_period_def visible_def log_visible_def
        split: option.splits)
qed

lemma record_period_in_transaction:
  "\<not> inactive s \<Longrightarrow> in_transaction (snd (record_period now st ending s))"
proof -
  assume a: "\<not> inactive s"
  obtain r s' where q: "run_query s = (r, s')" by (cases "run_query s")
  with a have "in_transaction s'" by (metis run_query_in_transaction snd_conv)
  with q show ?thesis
    by (auto simp: record_period_def add_recession_period_def split: option.splits)
qed

lemma record_period_effect:
  assumes "set R0 \<subseteq> set (recession_periods (working s))"
  shows "\<exists>add. rp_visible (snd (record_period now st ending s)) = rp_visible s @ add
           \<and> length add \<le> 1
           \<and> (\<forall>p \<in> set add. end_date p = ending \<and> start_date p \<notin> start_date ` set R0)
           \<and> set R0 \<subseteq> set (recession_periods (working (snd (record_period now st ending s))))"
proof -
  obtain r s' where q: "run_query s = (r, s')" by (cases "run_query s")
  then have v: "rp_visible s' = rp_visible s"
    by (metis run_query_frame(1) snd_conv)
  from q assms have sub: "set R0 \<subseteq> set (recession_periods (working s'))"
    using run_query_working_mono[of s] by auto
  show ?thesis
  proof (cases r)
    case (Some e)
    with q v sub show ?thesis by (simp add: record_period_def)
  next
    case None
    note rNone = None
    show ?thesis
    proof (cases st)
      case None
      with q rNone v sub show ?thesis by (simp add: record_period_def)
    next
      case (Some start)
      show ?thesis
      proof (cases "find (\<lambda>p. start_date p = start) (recession_periods (working s'))")
        case (Some existing)
        with q rNone \<open>st = Some start\<close> v sub show ?thesis by (simp add: record_period_def)
      next
        case None
        define new where "new = \<lparr>start_date = start, end_date = ending,
                        name = get_recession_name start, description = None,
                        rp_created_at = now\<rparr>"
        from None have "start \<notin> start_date ` set (recession_periods (working s'))"
          by (auto simp: find_None_iff)
        with sub have ns: "start \<notin> start_date ` set R0" by auto
        have res: "snd (record_period now st ending s) = add_recession_period new s'"
          using q rNone \<open>st = Some start\<close> None by (simp add: record_period_def new_def)
        have "rp_visible (add_recession_period new s') = rp_visible s @ [new]"
          using v by (simp add: rp_visible_def add_recession_period_def)
        moreover have "recession_periods (working (add_recession_period new s'))
            = recession_periods (working s')"
          by (simp add: add_recession_period_def)
        moreover have "end_date new = ending" "start_date new = start"
          by (simp_all add: new_def)
        ultimately show ?thesis
          unfolding res using ns sub by (intro exI[of _ "[new]"]) simp
      qed
    qed
  qed
qed

lemma scan_step:
  "val r = 1 \<and> \<not> inr \<Longrightarrow>
     scan_records now (r # rows) inr st s = scan_records now rows True (Some (date r)) s"
  "\<not> (val r = 1 \<and> \<not> inr) \<Longrightarrow> val r = 0 \<and> inr \<Longrightarrow>
     scan_records now (r # rows) inr st s =
       (case record_period now st (Some (date r)) s of
          (Some e, s') \<Rightarrow> (Inl e, s')
        | (None, s') \<Rightarrow> scan_records now rows False None s')"
  "\<not> (val r = 1 \<and> \<not> inr) \<Longrightarrow> \<not> (val r = 0 \<and> inr) \<Longrightarrow>
     scan_records now (r # rows) inr st s = scan_records now rows inr st s"
  by auto

lemma scan_records_frame:
  "committed (snd (scan_records now rows inr st s)) = committed s
   \<and> visible (snd (scan_records now rows inr st s)) = visible s
   \<and> log_visible (snd (scan_records now rows inr st s)) = log_visible s
   \<and> inactive (snd (scan_records now rows inr st s)) = inactive s
   \<and> (in_transaction s \<longrightarrow> in_transaction (snd (scan_records now rows inr st s)))"
proof (induction rows arbitrary: inr st s)
  case Nil
  then show ?case by simp
next
  case (Cons r rows)
  show ?case
  proof (cases "val r = 1 \<and> \<not> inr")
    case True
    show ?thesis
      unfolding scan_step(1)[OF True] using Cons[of True "Some (date r)" s] .
  next
    case False
    note nstart = False
    show ?thesis
    proof (cases "val r = 0 \<and> inr")
      case False
      show ?thesis
        unfolding scan_step(3)[OF nstart False] using Cons[of inr st s] .
    next
      case True
      obtain e s' where rp: "record_period now st (Some (date r)) s = (e, s')"
        by (cases "record_period now st (Some (date r)) s")
      then have f: "committed s' = committed s" "visible s' = visible s"
          "log_visible s' = log_visible s" "inactive s' = inactive s"
        by (metis record_period_frame snd_conv)+
      have it: "in_transaction s \<longrightarrow> in_transaction s'"
        using rp
        by (auto simp: record_period_def run_query_def db_call_def flush_pending_def
            add_recession_period_def split: option.splits list.splits if_splits prod.splits)
      show ?thesis
      proof (cases e)
        case (Some err)
        with rp f it show ?thesis
          unfolding scan_step(2)[OF nstart True] by simp
      next
        case None
        with rp f it Cons[of False None s'] show ?thesis
          unfolding scan_step(2)[OF nstart True] by simp
      qed
    qed
  qed
qed

lemma scan_records_effect:
  assumes "set R0 \<subseteq> set (recession_periods (working s))"
  shows "\<exists>add. rp_visible (snd (scan_records now rows inr st s)) = rp_visible s @ add
           \<and> (\<forall>p \<in> set add. end_date p \<noteq> None \<and> start_date p \<notin> start_date ` set R0)
           \<and> set R0 \<subseteq> set (recession_periods (working (snd (scan_records now rows inr st s))))"
  using assms
proof (induction rows arbitrary: inr st s)
  case Nil
  then show ?case by simp
next
  case (Cons r rows)
  show ?case
  proof (cases "val r = 1 \<and> \<not> inr")
    case True
    show ?thesis
      unfolding scan_step(1)[OF True] using Cons.IH[OF Cons.prems, of True "Some (date r)"] .
  next
    case False
    note nstart = False
    show ?thesis
    proof (cases "val r = 0 \<and> inr")
      case False
      show ?thesis
        unfolding scan_step(3)[OF nstart False] using Cons.IH[OF Cons.prems, of inr st] .
    next
      case True
      obtain e s' where rp: "record_period now st (Some (date r)) s = (e, s')"
        by (cases "record_period now st (Some (date r)) s")
      from record_period_effect[OF Cons.prems, of now st "Some (date r)"] rp
      obtain add1 where a1: "rp_visible s' = rp_visible s @ add1"
        "\<forall>p \<in> set add1. end_date p = Some (date r) \<and> start_date p \<notin> start_date ` set R0"
        "set R0 \<subseteq> set (recession_periods (working s'))"
        by auto
      from a1(2)
      have a1': "\<forall>p \<in> set add1. end_date p \<noteq> None \<and> start_date p \<notin> start_date ` set R0"
        by simp
      show ?thesis
      proof (cases e)
        case (Some err)
        have st: "scan_records now (r # rows) inr st s = (Inl err, s')"
          unfolding scan_step(2)[OF nstart True] using rp Some by simp
        show ?thesis
          unfolding st using a1(1,3) a1' by (intro exI[of _ add1]) simp
      next
        case None
        from Cons.IH[OF a1(3), of False None]
        obtain add2 where a2:
          "rp_visible (snd (scan_records now rows False None s')) = rp_visible s' @ add2"
          "\<forall>p \<in> set add2. end_date p \<noteq> None \<and> start_date p \<notin> start_date ` set R0"
          "set R0 \<subseteq> set (recession_periods (working (snd (scan_records now rows False None s'))))"
          by auto
        have st: "scan_records now (r # rows) inr st s = scan_records now rows False None s'"
          unfolding scan_step(2)[OF nstart True] using rp None by simp
        show ?thesis
          unfolding st using a1(1) a1' a2 by (intro exI[of _ "add1 @ add2"]) (simp add: ball_Un)
      qed
    qed
  qed
qed

lemma process_appends:
  "\<exists>closed opened.
     recession_periods (committed (snd (process_recession_indicators (SessionLocal db fs) now)))
       = recession_periods db @ closed @ opened
     \<and> (\<forall>p \<in> set (closed @ opened). start_date p \<notin> start_date ` set (recession_periods db))
     \<and> (\<forall>p \<in> set closed. end_date p \<noteq> None)
     \<and> length opened \<le> 1
     \<and> market_data (committed (snd (process_recession_indicators (SessionLocal db fs) now)))
         = market_data db
     \<and> data_fetch_log (committed (snd (process_recession_indicators (SessionLocal db fs) now)))
         = data_fetch_log db"
proof -
  let ?s = "SessionLocal db fs"
  let ?R0 = "recession_periods db"
  define res where "res = process_recession_indicators ?s now"
  have same: "?thesis" if "committed (snd res) = db"
    using that unfolding res_def by (intro exI[of _ "[]"]) simp
  obtain e1 s1 where q1: "run_query ?s = (e1, s1)" by (cases "run_query ?s")
  have f1: "committed s1 = db" "visible s1 = market_data db" "log_visible s1 = data_fetch_log db"
    "rp_visible s1 = ?R0" "\<not> inactive s1" "in_transaction s1"
    "set ?R0 \<subseteq> set (recession_periods (working s1))"
    using q1 run_query_committed[of ?s] run_query_visible[of ?s] run_query_frame[of ?s]
      run_query_in_transaction[of ?s] run_query_working_mono[of ?s]
    by (simp_all add: visible_def log_visible_def rp_visible_def)
  show ?thesis
  proof (cases e1)
    case (Some e)
    with q1 f1 have "committed (snd res) = db"
      by (simp add: res_def process_recession_indicators_def)
    then show ?thesis by (rule same)
  next
    case None
    note e1None = None
    let ?data = "usrec_rows (market_data (working s1))"
    show ?thesis
    proof (cases "?data = []")
      case True
      with q1 e1None f1 have "committed (snd res) = db"
        by (simp add: res_def process_recession_indicators_def)
      then show ?thesis by (rule same)
    next
      case False
      obtain r2 s2 where sc: "scan_records now ?data False None s1 = (r2, s2)"
        by (cases "scan_records now ?data False None s1")
      have f2: "committed s2 = db" "visible s2 = market_data db"
        "log_visible s2 = data_fetch_log db" "\<not> inactive s2" "in_transaction s2"
        using scan_records_frame[of now ?data False None s1] sc f1 by simp_all
      from scan_records_effect[OF f1(7), of now ?data False None] sc f1(4)
      obtain closed where cl: "rp_visible s2 = ?R0 @ closed"
        "\<forall>p \<in> set closed. end_date p \<noteq> None \<and> start_date p \<notin> start_date ` set ?R0"
        "set ?R0 \<subseteq> set (recession_periods (working s2))"
        by auto
      show ?thesis
      proof (cases r2)
        case (Inl e)
        with q1 e1None False sc f2 have "committed (snd res) = db"
          by (simp add: res_def process_recession_indicators_def)
        then show ?thesis by (rule same)
      next
        case (Inr st2)
        obtain inr st where st2: "st2 = (inr, st)" by (cases st2)
        define ongoing where "ongoing \<longleftrightarrow> inr \<and> st \<noteq> None"
        define og where "og = (if ongoing then record_period now st None s2 else (None, s2))"
        obtain e3 s3 where o: "og = (e3, s3)" by (cases og)
        have f3: "committed s3 = db" "visible s3 = market_data db"
          "log_visible s3 = data_fetch_log db" "\<not> inactive s3" "in_transaction s3"
        proof -
          have "s3 = s2 \<or> s3 = snd (record_period now st None s2)"
            using o by (cases ongoing) (simp_all add: og_def)
          then show "committed s3 = db" "visible s3 = market_data db"
            "log_visible s3 = data_fetch_log db" "\<not> inactive s3" "in_transaction s3"
            using f2 record_period_in_transaction[of s2 now st None] by auto
        qed
        have "\<exists>opened. rp_visible s3 = rp_visible s2 @ opened \<and> length opened \<le> 1
            \<and> (\<forall>p \<in> set opened. start_date p \<notin> start_date ` set ?R0)"
        proof (cases ongoing)
          case True
          with o have "s3 = snd (record_period now st None s2)" by (simp add: og_def)
          with record_period_effect[OF cl(3), of now st None] show ?thesis by auto
        next
          case False
          with o show ?thesis by (simp add: og_def)
        qed
        then obtain opened where op: "rp_visible s3 = rp_visible s2 @ opened"
          "length opened \<le> 1" "\<forall>p \<in> set opened. start_date p \<notin> start_date ` set ?R0"
          by auto
        have unf: "res = (case og of (Some e, s3) \<Rightarrow> (Inl e, rollback s3)
             | (None, s3) \<Rightarrow> (case commit s3 of (Some e, s4) \<Rightarrow> (Inl e, rollback s4)
                                 | (None, s4) \<Rightarrow> (Inr (), s4)))"
          using q1 e1None False sc Inr st2
          by (simp add: res_def process_recession_indicators_def og_def ongoing_def)
        show ?thesis
        proof (cases e3)
          case (Some e)
          with unf o f3 have "committed (snd res) = db" by simp
          then show ?thesis by (rule same)
        next
          case None
          from f3(5) have "in_transaction s3 \<or> pending s3 \<noteq> empty_db" by simp
          with f3(4) show ?thesis
          proof (cases rule: commit_cases)
            case (fail s4)
            with unf o None f3 have "committed (snd res) = db" by simp
            then show ?thesis by (rule same)
          next
            case (ok s4)
            with unf o None have r: "snd res = s4" by simp
            have "recession_periods (committed s4) = ?R0 @ closed @ opened"
              using ok(5) op(1) cl(1) by (simp add: rp_visible_def)
            moreover have "market_data (committed s4) = market_data db"
              using ok(5) f3(2) by (simp add: visible_def)
            moreover have "data_fetch_log (committed s4) = data_fetch_log db"
              using ok(5) f3(3) by (simp add: log_visible_def)
            ultimately show ?thesis
              using cl(2) op(2,3) r unfolding res_def
              by (intro exI[of _ closed] exI[of _ opened]) (simp add: ball_Un)
          qed
        qed
      qed
    qed
  qed
qed

lemmas eval_defs = process_recession_indicators_def store_series_data_def run_query_def
  db_call_def commit_def rollback_def flush_pending_def record_period_def usrec_rows_def
  add_recession_period_def add_market_data_def update_market_data_def key_is_def
  empty_db_def merge_db_def SessionLocal_def refresh_def indicator_011_def
  indicator_0110_def indicator_01101_def sample_db_def indicator_row_def old_period_def
  open_periods_def Let_def

text \<open>
  Claim C10. A run of \<open>process_recession_indicators\<close>, whatever its outcome, leaves every
  row of the interval table as it was, in its place and with all its fields; what it
  writes are new rows after them, and the start date of each new row is the start date
  of no row that was there. The Observation table and the audit table are not written.
\<close>

theorem process_recession_indicators_inserts_only:
  "\<exists>new.
     recession_periods (committed (snd (process_recession_indicators (SessionLocal db fs) now)))
       = recession_periods db @ new
     \<and> (\<forall>p \<in> set new. start_date p \<notin> start_date ` set (recession_periods db))
     \<and> market_data (committed (snd (process_recession_indicators (SessionLocal db fs) now)))
         = market_data db
     \<and> data_fetch_log (committed (snd (process_recession_indicators (SessionLocal db fs) now)))
         = data_fetch_log db"
proof -
  from process_appends[of db fs now] obtain closed opened where
    "recession_periods (committed (snd (process_recession_indicators (SessionLocal db fs) now)))
       = recession_periods db @ closed @ opened"
    "\<forall>p \<in> set (closed @ opened). start_date p \<notin> start_date ` set (recession_periods db)"
    "market_data (committed (snd (process_recession_indicators (SessionLocal db fs) now)))
         = market_data db"
    "data_fetch_log (committed (snd (process_recession_indicators (SessionLocal db fs) now)))
         = data_fetch_log db"
    by blast
  then show ?thesis by (intro exI[of _ "closed @ opened"]) simp
qed

theorem process_recession_indicators_inserts_only_witness:
  "recession_periods (committed (snd
      (process_recession_indicators (SessionLocal sample_db []) (2024, 1, 1))))
   = [old_period,
      \<lparr>start_date = (2020, 2, 1), end_date = Some (2020, 3, 1), name = ''COVID-19 Recession'',
       description = None, rp_created_at = (2024, 1, 1)\<rparr>]
   \<and> (2020, 2, 1) \<notin> start_date ` set (recession_periods sample_db)"
  using process_recession_indicators_inserts_only [of sample_db "[]" "(2024, 1, 1)"]
  by (simp add: eval_defs get_recession_name_def recession_names_def year_def)



text \<open>
  Claim C1, amended. When the interval table holds a row with start date \<open>S\<close> (an open
  one in particular), a later run of \<open>process_recession_indicators\<close>, whatever the
  refreshed history contains, leaves the rows with start date \<open>S\<close> exactly as they
  were: the end date of the row is not written, and no second row with start date
  \<open>S\<close> is inserted.
\<close>

theorem open_interval_stays_open:
  assumes "p \<in> set (recession_periods db)"
  shows "filter (\<lambda>q. start_date q = start_date p)
           (recession_periods (committed (snd
              (process_recession_indicators (SessionLocal db fs) now))))
         = filter (\<lambda>q. start_date q = start_date p) (recession_periods db)"
proof -
  from process_appends[of db fs now] obtain closed opened where
    r: "recession_periods (committed (snd (process_recession_indicators (SessionLocal db fs) now)))
       = recession_periods db @ closed @ opened"
    and n: "\<forall>q \<in> set (closed @ opened). start_date q \<notin> start_date ` set (recession_periods db)"
    by blast
  from n assms have "\<forall>q \<in> set (closed @ opened). start_date q \<noteq> start_date p" by auto
  then have "filter (\<lambda>q. start_date q = start_date p) (closed @ opened) = []"
    by (simp add: filter_empty_conv)
  then show ?thesis by (simp add: r)
qed

theorem open_interval_stays_open_witness:
  "old_period \<in> set (recession_periods sample_db)
   \<and> filter (\<lambda>q. start_date q = start_date old_period)
        (recession_periods (committed (snd
           (process_recession_indicators (SessionLocal sample_db []) (2024, 1, 1)))))
     = [old_period]"
proof -
  have h: "old_period \<in> set (recession_periods sample_db)"
    by (simp add: sample_db_def)
  show ?thesis
    using h open_interval_stays_open [OF h, of "[]" "(2024, 1, 1)"]
    by (simp add: sample_db_def old_period_def)
qed

text \<open>
  Claim C1, as stated, fails: after the indicator \<open>[0,1,1]\<close> on the first days of
  January to March 2020 the table holds the open interval that starts in February; after
  the refreshed indicator \<open>[0,1,1,0]\<close> the row is still open, where the claim has its
  end date set to the first of April.
\<close>

theorem open_interval_counterexample:
  "map (\<lambda>p. (start_date p, end_date p)) (recession_periods (committed
      (refresh indicator_011 (2024, 1, 1) (SessionLocal empty_db []))))
     = [((2020, 2, 1), None)]
   \<and> map (\<lambda>p. (start_date p, end_date p)) (recession_periods (committed
        (refresh indicator_0110 (2024, 2, 1)
           (refresh indicator_011 (2024, 1, 1) (SessionLocal empty_db [])))))
     = [((2020, 2, 1), None)]"
  by (simp add: eval_defs)

subsection \<open>The worked example of a closed recession\<close>




section \<open>Properties of the batch ingestion\<close>

lemma get_series_info_sent:
  "snd (get_series_info fred sid sent) = sent @ [GetSeriesInfo sid]"
  by (simp add: get_series_info_def fred_get_series_info_def split: sum.splits option.splits)

lemma fetch_series_data_answer:
  "fetch_series_data fred sid start en sent
     = (series_answer fred sid start en, sent @ [GetSeries sid start en])"
  by (simp add: fetch_series_data_def fred_get_series_def split: sum.splits)

lemma db_call_faults: "set (faults (snd (db_call s))) \<subseteq> set (faults s)"
  by (auto simp: db_call_def split: list.splits)

lemma run_query_faults: "set (faults (snd (run_query s))) \<subseteq> set (faults s)"
  by (auto simp: run_query_def db_call_def flush_pending_def split: list.splits)

lemma commit_faults: "set (faults (snd (commit s))) \<subseteq> set (faults s)"
  by (auto simp: commit_def db_call_def flush_pending_def Let_def split: list.splits)

lemma rollback_faults [simp]: "faults (rollback s) = faults s"
  by (simp add: rollback_def)

lemma store_rows_faults_subset:
  "set (faults (snd (store_rows sid sname now data n s))) \<subseteq> set (faults s)"
proof (induction data arbitrary: n s)
  case Nil
  then show ?case by simp
next
  case (Cons a data)
  obtain d v where a: "a = (d, v)" by (cases a)
  show ?case
  proof (cases v)
    case None
    with a Cons show ?thesis by simp
  next
    case (Some x)
    obtain r s' where q: "run_query s = (r, s')" by (cases "run_query s")
    then have c: "set (faults s') \<subseteq> set (faults s)"
      by (metis run_query_faults snd_conv)
    show ?thesis
    proof (cases r)
      case (Some e)
      with a \<open>v = Some x\<close> q c show ?thesis by simp
    next
      case None
      show ?thesis
      proof (cases "find (key_is d sid) (market_data (working s'))")
        case None
        have "set (faults (snd (store_rows sid sname now data (n + 1)
                 (add_market_data \<lparr>date = d, series_id = sid, series_name = sname, val = x,
                          created_at = now, updated_at = now\<rparr> s')))) \<subseteq> set (faults s')"
          using Cons[of "n + 1" "add_market_data \<lparr>date = d, series_id = sid, series_name = sname, val = x,
                          created_at = now, updated_at = now\<rparr> s'"]
          by (simp add: add_market_data_def)
        with a \<open>v = Some x\<close> q c \<open>r = None\<close> None show ?thesis by simp
      next
        case (Some existing)
        have "set (faults (snd (store_rows sid sname now data (n + 1)
                 (update_market_data (key_is d sid)
                         (\<lambda>r. r\<lparr>val := x, updated_at := now\<rparr>) s')))) \<subseteq> set (faults s')"
          using Cons[of "n + 1" "update_market_data (key_is d sid)
                         (\<lambda>r. r\<lparr>val := x, updated_at := now\<rparr>) s'"]
          by (simp add: update_market_data_def)
        with a \<open>v = Some x\<close> q c \<open>r = None\<close> Some show ?thesis by simp
      qed
    qed
  qed
qed

lemma store_rows_log_visible:
  "log_visible (snd (store_rows sid sname now data n s)) = log_visible s"
proof (induction data arbitrary: n s)
  case Nil
  then show ?case by simp
next
  case (Cons a data)
  obtain d v where a: "a = (d, v)" by (cases a)
  show ?case
  proof (cases v)
    case None
    with a Cons show ?thesis by simp
  next
    case (Some x)
    obtain r s' where q: "run_query s = (r, s')" by (cases "run_query s")
    then have c: "log_visible s' = log_visible s"
      by (metis run_query_frame(2) snd_conv)
    show ?thesis
    proof (cases r)
      case (Some e)
      with a \<open>v = Some x\<close> q c show ?thesis by simp
    next
      case None
      show ?thesis
      proof (cases "find (key_is d sid) (market_data (working s'))")
        case None
        have "log_visible (snd (store_rows sid sname now data (n + 1)
                 (add_market_data \<lparr>date = d, series_id = sid, series_name = sname, val = x,
                          created_at = now, updated_at = now\<rparr> s'))) = log_visible s'"
          using Cons[of "n + 1" "add_market_data \<lparr>date = d, series_id = sid, series_name = sname, val = x,
                          created_at = now, updated_at = now\<rparr> s'"]
          by (simp add: add_market_data_def log_visible_def)
        with a \<open>v = Some x\<close> q c \<open>r = None\<close> None show ?thesis by simp
      next
        case (Some existing)
        have "log_visible (snd (store_rows sid sname now data (n + 1)
                 (update_market_data (key_is d sid)
                         (\<lambda>r. r\<lparr>val := x, updated_at := now\<rparr>) s'))) = log_visible s'"
          using Cons[of "n + 1" "update_market_data (key_is d sid)
                         (\<lambda>r. r\<lparr>val := x, updated_at := now\<rparr>) s'"]
          by (simp add: update_market_data_def log_visible_def)
        with a \<open>v = Some x\<close> q c \<open>r = None\<close> Some show ?thesis by simp
      qed
    qed
  qed
qed

lemma store_series_data_log:
  assumes st: "store_series_data s sid sname data now = (r, s')" and cl: "clean s"
  shows "data_fetch_log (committed s') = data_fetch_log (committed s)" "clean s'"
    "set (faults s') \<subseteq> set (faults s)"
proof -
  from cl have ia: "\<not> inactive s" and nt: "\<not> in_transaction s"
    and pe: "pending s = empty_db" and wc: "working s = committed s"
    by (simp_all add: clean_def)
  obtain r1 s1 where r1: "store_rows sid sname now data 0 s = (r1, s1)"
    by (cases "store_rows sid sname now data 0 s")
  then have f1: "set (faults s1) \<subseteq> set (faults s)" and l1: "log_visible s1 = log_visible s"
    using store_rows_faults_subset[of sid sname now data 0 s]
      store_rows_log_visible[of sid sname now data 0 s] by simp_all
  obtain r2 s2 where r2: "commit s1 = (r2, s2)" by (cases "commit s1")
  then have f2: "set (faults s2) \<subseteq> set (faults s1)"
    using commit_faults[of s1] by simp
  from st r1 r2 f1 f2 show "set (faults s') \<subseteq> set (faults s)"
    by (auto simp: store_series_data_def split: sum.splits option.splits)
  from cl st show "clean s'"
    using store_series_data_clean[of s sid sname data now] by simp
  show "data_fetch_log (committed s') = data_fetch_log (committed s)"
  proof (cases r)
    case (Inl e)
    with st show ?thesis using store_series_data_failure[of s sid sname data now e s'] by simp
  next
    case (Inr n)
    with st r1 obtain m where m: "r1 = Inr m"
      by (cases r1) (auto simp: store_series_data_def)
    show ?thesis
    proof (cases "present data = 0")
      case True
      then have "s1 = s" using r1 store_rows_nothing[of data sid sname now 0 s] by simp
      moreover have "commit s = (None, s)" using ia nt pe by (rule commit_noop)
      ultimately show ?thesis using st r1 m by (simp add: store_series_data_def)
    next
      case False
      with r1 m ia have it: "in_transaction s1" and ia1: "\<not> inactive s1"
        using store_rows_Inr(5)[of s sid sname now data 0 m s1]
          store_rows_Inr(4)[of s sid sname now data 0 m s1] by simp_all
      from it have "in_transaction s1 \<or> pending s1 \<noteq> empty_db" by simp
      with ia1 show ?thesis
      proof (cases rule: commit_cases)
        case (ok s3)
        with st r1 m Inr have "s' = s3" by (simp add: store_series_data_def)
        with ok(5) have "data_fetch_log (committed s') = log_visible s1"
          by (simp add: log_visible_def)
        with l1 pe wc show ?thesis by (simp add: log_visible_def)
      next
        case (fail s3)
        with st r1 m Inr show ?thesis by (simp add: store_series_data_def)
      qed
    qed
  qed
qed

lemma commit_add_fetch_log:
  assumes cl: "clean s"
  obtains (ok) s' where "commit (add_fetch_log l s) = (None, s')" "clean s'"
      "data_fetch_log (committed s') = data_fetch_log (committed s) @ [l]"
      "set (faults s') \<subseteq> set (faults s)"
    | (fail) e s' where "commit (add_fetch_log l s) = (Some e, s')" "inactive s'"
      "True \<in> set (faults s)"
proof -
  from cl have ia: "\<not> inactive s" and nt: "\<not> in_transaction s"
    and pe: "pending s = empty_db" and wc: "working s = committed s"
    by (simp_all add: clean_def)
  have ne: "pending (add_fetch_log l s) \<noteq> empty_db"
    by (simp add: add_fetch_log_def empty_db_def pe)
  show ?thesis
  proof (cases "faults s \<noteq> [] \<and> hd (faults s)")
    case True
    then obtain fs where fs: "faults s = True # fs" by (cases "faults s") auto
    let ?s' = "(add_fetch_log l s)\<lparr>faults := fs, in_transaction := True, inactive := True\<rparr>"
    have "commit (add_fetch_log l s) = (Some OperationalError, ?s')"
      using ia ne fs by (simp add: commit_def db_call_def add_fetch_log_def)
    moreover have "inactive ?s'" by simp
    moreover have "True \<in> set (faults s)" using fs by simp
    ultimately show ?thesis by (rule fail)
  next
    case False
    let ?s0 = "add_fetch_log l s"
    let ?s' = "(flush_pending (?s0\<lparr>faults := tl (faults s), in_transaction := True\<rparr>))
               \<lparr>committed := merge_db (working ?s0) (pending ?s0), in_transaction := False\<rparr>"
    have "commit ?s0 = (None, ?s')"
      using ia ne False
      by (cases "faults s") (auto simp: commit_def db_call_def flush_pending_def add_fetch_log_def)
    moreover have "clean ?s'"
      by (simp add: clean_def flush_pending_def add_fetch_log_def ia)
    moreover have "data_fetch_log (committed ?s') = data_fetch_log (committed s) @ [l]"
      by (simp add: add_fetch_log_def pe wc)
    moreover have "set (faults ?s') \<subseteq> set (faults s)"
      by (cases "faults s") (auto simp: flush_pending_def add_fetch_log_def)
    ultimately show ?thesis by (rule ok)
  qed
qed

lemma commit_inactive:
  assumes "inactive s"
  shows "fst (commit s) = Some PendingRollbackError" "inactive (snd (commit s))"
  using assms by (simp_all add: commit_def db_call_def)

lemma fetch_all_step:
  assumes cl: "clean s" and sd: "strptime start = Some sd"
  obtains (continue) out s2 l where
      "fetch_all fred start now ((k, sid) # rest) res s sent
         = fetch_all fred start now rest (res(k \<mapsto> out)) s2
             (sent @ [GetSeriesInfo sid, GetSeries sid start None])"
      "clean s2" "data_fetch_log (committed s2) = data_fetch_log (committed s) @ [l]"
      "records_outcome sid out l" "set (faults s2) \<subseteq> set (faults s)"
    | (abort) e s2 sent1 where
      "fetch_all fred start now ((k, sid) # rest) res s sent = (Inl e, s2, sent1)"
      "inactive s2" "True \<in> set (faults s)"
proof -
  let ?sent1 = "sent @ [GetSeriesInfo sid]"
  let ?sent2 = "sent @ [GetSeriesInfo sid, GetSeries sid start None]"
  obtain info where gi: "get_series_info fred sid sent = (info, ?sent1)"
    using get_series_info_sent[of fred sid sent] by (cases "get_series_info fred sid sent") simp
  let ?sname = "case map_of info ''title'' of Some t \<Rightarrow> t | None \<Rightarrow> k"
  have fd: "fetch_series_data fred sid start None ?sent1
      = (series_answer fred sid start None, ?sent2)"
    by (simp add: fetch_series_data_answer)
  have handler: thesis
    if tr: "try_series fred start now k sid s sent = (Inl e, s1, ?sent2)"
      and c1: "clean s1" and d1: "data_fetch_log (committed s1) = data_fetch_log (committed s)"
      and f1: "set (faults s1) \<subseteq> set (faults s)" for e s1
  proof -
    let ?l = "\<lparr>log_series_id = sid, fetch_date = now, status = ''failed'',
                records_fetched = 0, error_message = Some e,
                log_start_date = sd, log_end_date = None\<rparr>"
    from c1 show thesis
    proof (cases rule: commit_add_fetch_log[where l = ?l])
      case (ok s2)
      have "fetch_all fred start now ((k, sid) # rest) res s sent
         = fetch_all fred start now rest (res(k \<mapsto> Failed e)) s2 ?sent2"
        using tr sd ok(1) by simp
      moreover note ok(2)
      moreover have "data_fetch_log (committed s2) = data_fetch_log (committed s) @ [?l]"
        using ok(3) d1 by simp
      moreover have "records_outcome sid (Failed e) ?l" by (simp add: records_outcome_def)
      moreover have "set (faults s2) \<subseteq> set (faults s)" using ok(4) f1 by simp
      ultimately show thesis by (rule continue)
    next
      case (fail e' s2)
      have "fetch_all fred start now ((k, sid) # rest) res s sent = (Inl e', s2, ?sent2)"
        using tr sd fail(1) by simp
      moreover note fail(2)
      moreover have "True \<in> set (faults s)" using fail(3) f1 by auto
      ultimately show thesis by (rule abort)
    qed
  qed
  show thesis
  proof (cases "series_answer fred sid start None")
    case (Inl e)
    have "try_series fred start now k sid s sent = (Inl e, s, ?sent2)"
      by (simp add: try_series_def gi fd Inl)
    then show thesis using cl by (rule handler) simp_all
  next
    case (Inr data)
    obtain r s1 where st: "store_series_data s sid ?sname data now = (r, s1)"
      by (cases "store_series_data s sid ?sname data now")
    from store_series_data_log[OF st cl]
    have c1: "clean s1" and d1: "data_fetch_log (committed s1) = data_fetch_log (committed s)"
      and f1: "set (faults s1) \<subseteq> set (faults s)" by simp_all
    show thesis
    proof (cases r)
      case (Inl e)
      have "try_series fred start now k sid s sent = (Inl e, s1, ?sent2)"
        using st Inl by (simp add: try_series_def gi fd Inr)
      then show thesis using c1 d1 f1 by (rule handler)
    next
      case (Inr n)
      note rInr = Inr
      let ?l = "\<lparr>log_series_id = sid, fetch_date = now, status = ''success'',
                  records_fetched = n, error_message = None,
                  log_start_date = sd, log_end_date = Some now\<rparr>"
      from c1 show thesis
      proof (cases rule: commit_add_fetch_log[where l = ?l])
        case (ok s2)
        have "try_series fred start now k sid s sent = (Inr (Success n ?sname), s2, ?sent2)"
          using st rInr sd ok(1) by (simp add: try_series_def gi fd \<open>series_answer fred sid start None = Inr data\<close>)
        then have "fetch_all fred start now ((k, sid) # rest) res s sent
           = fetch_all fred start now rest (res(k \<mapsto> Success n ?sname)) s2 ?sent2"
          by simp
        moreover note ok(2)
        moreover have "data_fetch_log (committed s2) = data_fetch_log (committed s) @ [?l]"
          using ok(3) d1 by simp
        moreover have "records_outcome sid (Success n ?sname) ?l"
          by (simp add: records_outcome_def)
        moreover have "set (faults s2) \<subseteq> set (faults s)" using ok(4) f1 by simp
        ultimately show thesis by (rule continue)
      next
        case (fail e' s2)
        have tr: "try_series fred start now k sid s sent = (Inl e', s2, ?sent2)"
          using st rInr sd fail(1) by (simp add: try_series_def gi fd \<open>series_answer fred sid start None = Inr data\<close>)
        let ?lf = "\<lparr>log_series_id = sid, fetch_date = now, status = ''failed'',
                records_fetched = 0, error_message = Some e',
                log_start_date = sd, log_end_date = None\<rparr>"
        have ia: "inactive (add_fetch_log ?lf s2)"
          using fail(2) by (simp add: add_fetch_log_def)
        obtain s3 where co: "commit (add_fetch_log ?lf s2) = (Some PendingRollbackError, s3)"
          and i3: "inactive s3"
          using commit_inactive[OF ia] by (cases "commit (add_fetch_log ?lf s2)") simp
        have "fetch_all fred start now ((k, sid) # rest) res s sent
            = (Inl PendingRollbackError, s3, ?sent2)"
          using tr sd co by simp
        moreover note i3
        moreover have "True \<in> set (faults s)" using fail(3) f1 by auto
        ultimately show thesis by (rule abort)
      qed
    qed
  qed
qed

lemma fetch_all_audit:
  assumes sd: "strptime start = Some sd"
  shows "clean s \<Longrightarrow> distinct (map fst cfg) \<Longrightarrow>
    (case fetch_all fred start now cfg res s sent of
      (Inr results, s', sent') \<Rightarrow>
         sent' = sent @ batch_requests start cfg
         \<and> (\<exists>logs. data_fetch_log (committed s') = data_fetch_log (committed s) @ logs
              \<and> list_all2 (\<lambda>(k, sid) l. \<exists>out. results k = Some out \<and> records_outcome sid out l)
                   cfg logs)
         \<and> dom results = dom res \<union> fst ` set cfg
         \<and> (\<forall>k. k \<notin> fst ` set cfg \<longrightarrow> results k = res k)
    | (Inl e, s', sent') \<Rightarrow> inactive s' \<and> True \<in> set (faults s))"
proof (induction cfg arbitrary: res s sent)
  case Nil
  then show ?case by (simp add: batch_requests_def)
next
  case (Cons a rest)
  obtain k sid where a: "a = (k, sid)" by (cases a)
  from Cons.prems a have kn: "k \<notin> fst ` set rest" and dr: "distinct (map fst rest)"
    by simp_all
  from Cons.prems(1) sd show ?case
  proof (cases rule: fetch_all_step[where fred=fred and now=now and k=k and sid=sid
        and rest=rest and res=res and sent=sent])
    case (abort e s2 sent1)
    with a show ?thesis by simp
  next
    case (continue out s2 l)
    let ?sent2 = "sent @ [GetSeriesInfo sid, GetSeries sid start None]"
    let ?res2 = "res(k \<mapsto> out)"
    obtain r s' sent' where R: "fetch_all fred start now rest ?res2 s2 ?sent2 = (r, s', sent')"
      by (cases "fetch_all fred start now rest ?res2 s2 ?sent2")
    note IH = Cons.IH[OF continue(2) dr, where res = ?res2 and sent = ?sent2, unfolded R]
    show ?thesis
    proof (cases r)
      case (Inl e)
      with IH have "inactive s'" "True \<in> set (faults s2)" by simp_all
      with continue(5) have "inactive s' \<and> True \<in> set (faults s)" by auto
      with a continue(1) R Inl show ?thesis by simp
    next
      case (Inr results)
      with IH have s1: "sent' = ?sent2 @ batch_requests start rest"
        and lg: "\<exists>logs. data_fetch_log (committed s') = data_fetch_log (committed s2) @ logs
              \<and> list_all2 (\<lambda>(k, sid) l. \<exists>out. results k = Some out \<and> records_outcome sid out l)
                   rest logs"
        and dm: "dom results = dom ?res2 \<union> fst ` set rest"
        and fr: "\<forall>k'. k' \<notin> fst ` set rest \<longrightarrow> results k' = ?res2 k'"
        by simp_all
      from lg obtain logs where l1: "data_fetch_log (committed s') = data_fetch_log (committed s2) @ logs"
        and l2: "list_all2 (\<lambda>(k, sid) l. \<exists>out. results k = Some out \<and> records_outcome sid out l)
                   rest logs" by blast
      from fr kn have rk: "results k = Some out" by simp
      have c1: "sent' = sent @ batch_requests start ((k, sid) # rest)"
        using s1 by (simp add: batch_requests_def)
      have c2: "data_fetch_log (committed s') = data_fetch_log (committed s) @ (l # logs)"
        using l1 continue(3) by simp
      have c3: "list_all2 (\<lambda>(k, sid) l. \<exists>out. results k = Some out \<and> records_outcome sid out l)
                   ((k, sid) # rest) (l # logs)"
        using l2 rk continue(4) by simp
      have c4: "dom results = dom res \<union> fst ` set ((k, sid) # rest)"
        using dm by auto
      have c5: "\<forall>k'. k' \<notin> fst ` set ((k, sid) # rest) \<longrightarrow> results k' = res k'"
        using fr by simp
      from c2 c3 have c23: "\<exists>logs. data_fetch_log (committed s') = data_fetch_log (committed s) @ logs
              \<and> list_all2 (\<lambda>(k, sid) l. \<exists>out. results k = Some out \<and> records_outcome sid out l)
                   ((k, sid) # rest) logs" by blast
      have "fetch_all fred start now (a # rest) res s sent = (Inr results, s', sent')"
        using a continue(1) R Inr by simp
      with c1 c23 c4 c5 a show ?thesis by simp
    qed
  qed
qed

lemma strptime_1980: "strptime ''1980-01-01'' = Some (1980, 1, 1)"
  by (simp add: digit_def digit_val_def nonzero_digit_def days_in_month_def leap_year_def)

lemma strptime_slashes: "strptime ''1980/01/01'' = None"
  by (simp add: digit_def)

text \<open>
  Claim C8, as stated, fails in two ways, both shown on the configured series with a
  provider that rejects every request. With a start date that is not in the format
  \<open>%Y-%m-%d\<close>, the \<open>except\<close> handler of the first series calls \<open>strptime\<close> itself and
  raises: the batch ends with that error, no audit row is written and the other ten
  series are never requested. With a well-formed start date and a database that fails on
  the first commit, the commit of the audit row in the handler raises, with the same effect.
\<close>

theorem fetch_and_store_all_series_counterexample:
  "fetch_and_store_all_series rejecting_fred fred_series (SessionLocal empty_db [])
       ''1980/01/01'' (2024, 1, 1) []
     = (Inl (ValueError ''1980/01/01''), SessionLocal empty_db [],
        [GetSeriesInfo ''DRBLACBS'', GetSeries ''DRBLACBS'' ''1980/01/01'' None])
   \<and> fst (fetch_and_store_all_series rejecting_fred fred_series (SessionLocal empty_db [True])
       ''1980-01-01'' (2024, 1, 1) []) = Inl OperationalError
   \<and> data_fetch_log (committed (fst (snd
        (fetch_and_store_all_series rejecting_fred fred_series (SessionLocal empty_db [True])
           ''1980-01-01'' (2024, 1, 1) [])))) = []
   \<and> snd (snd (fetch_and_store_all_series rejecting_fred fred_series
        (SessionLocal empty_db [True]) ''1980-01-01'' (2024, 1, 1) []))
      = [GetSeriesInfo ''DRBLACBS'', GetSeries ''DRBLACBS'' ''1980-01-01'' None]"
  by (simp add: fetch_and_store_all_series_def fred_series_def try_series_def
      get_series_info_def fred_get_series_info_def fetch_series_data_def fred_get_series_def
      rejecting_fred_def strptime_1980 strptime_slashes bad_format_def commit_def db_call_def
      add_fetch_log_def SessionLocal_def empty_db_def del: strptime.simps)

text \<open>
  Claim C8, amended. Let the start date be in the format \<open>%Y-%m-%d\<close>, the session have no
  transaction under way and the keys of the configuration be distinct. Then a failure of
  the provider or of the store step for one series is caught and the next series is
  attempted: when \<open>fetch_and_store_all_series\<close> returns, it has sent, for every configured
  series in order, the metadata request and the observation request, every key has an
  outcome, and the audit table has grown by exactly one row per series, each recording the
  outcome of its series. The batch ends early only when the commit of an audit row has
  failed, which takes a failure of the database and leaves the session unusable.
\<close>

theorem fetch_and_store_all_series_audit:
  assumes "strptime start = Some sd" and "clean s" and "distinct (map fst cfg)"
  shows "case fetch_and_store_all_series fred cfg s start now sent of
      (Inr results, s', sent') \<Rightarrow>
         sent' = sent @ batch_requests start cfg
         \<and> (\<exists>logs. data_fetch_log (committed s') = data_fetch_log (committed s) @ logs
              \<and> list_all2 (\<lambda>(k, sid) l. \<exists>out. results k = Some out \<and> records_outcome sid out l)
                   cfg logs)
         \<and> dom results = fst ` set cfg
    | (Inl e, s', sent') \<Rightarrow> inactive s' \<and> True \<in> set (faults s)"
  using fetch_all_audit[OF assms, where fred = fred and now = now and res = Map.empty
      and sent = sent]
  by (simp add: fetch_and_store_all_series_def split: prod.splits sum.splits)

theorem fetch_and_store_all_series_audit_witness:
  "strptime ''1980-01-01'' = Some (1980, 1, 1)
   \<and> clean (SessionLocal empty_db [])
   \<and> distinct (map fst two_series)
   \<and> map log_series_id
        (data_fetch_log (committed (fst (snd
          (fetch_and_store_all_series indicator_only_fred two_series (SessionLocal empty_db [])
             ''1980-01-01'' (2024, 1, 1) [])))))
      = [''GDP'', ''USREC'']
   \<and> snd (snd (fetch_and_store_all_series indicator_only_fred two_series
        (SessionLocal empty_db []) ''1980-01-01'' (2024, 1, 1) []))
      = [GetSeriesInfo ''GDP'', GetSeries ''GDP'' ''1980-01-01'' None,
         GetSeriesInfo ''USREC'', GetSeries ''USREC'' ''1980-01-01'' None]"
proof -
  have h1: "strptime ''1980-01-01'' = Some (1980, 1, 1)" by (rule strptime_1980)
  have h2: "clean (SessionLocal empty_db [])" by simp
  have h3: "distinct (map fst two_series)" by (simp add: two_series_def)
  obtain r s' sent' where R: "fetch_and_store_all_series indicator_only_fred two_series
      (SessionLocal empty_db []) ''1980-01-01'' (2024, 1, 1) [] = (r, s', sent')"
    by (cases "fetch_and_store_all_series indicator_only_fred two_series
      (SessionLocal empty_db []) ''1980-01-01'' (2024, 1, 1) []")
  note T = fetch_and_store_all_series_audit[OF h1 h2 h3, where fred = indicator_only_fred
      and now = "(2024, 1, 1)" and sent = "[]", unfolded R]
  have "map log_series_id (data_fetch_log (committed s')) = [''GDP'', ''USREC'']
      \<and> sent' = [GetSeriesInfo ''GDP'', GetSeries ''GDP'' ''1980-01-01'' None,
         GetSeriesInfo ''USREC'', GetSeries ''USREC'' ''1980-01-01'' None]"
  proof (cases r)
    case (Inl e)
    with T show ?thesis by simp
  next
    case (Inr results)
    with T obtain logs where l1: "data_fetch_log (committed s') = logs"
      and l2: "list_all2 (\<lambda>(k, sid) l. \<exists>out. results k = Some out \<and> records_outcome sid out l)
                   two_series logs"
      and l3: "sent' = batch_requests ''1980-01-01'' two_series"
      by auto
    from l2 have "map log_series_id logs = [''GDP'', ''USREC'']"
      by (auto simp: two_series_def list_all2_Cons1 records_outcome_def)
    with l1 l3 show ?thesis by (simp add: batch_requests_def two_series_def)
  qed
  with h1 h2 h3 R show ?thesis by simp
qed

end
